theory Spec2Isabelle
  imports Main "HOL-Library.Word" "HOL-Library.Multiset"
begin

section \<open>Incident store (package storage)\<close>

text \<open>
  The store keeps \<^verbatim>\<open>map[string]*models.Incident\<close>: the values are pointers, and
  \<^verbatim>\<open>Create\<close> and \<^verbatim>\<open>Update\<close> write through the pointer the caller hands in. The model
  therefore has an explicit heap from addresses to incident records; the store's map
  holds addresses. Instants of \<^verbatim>\<open>time.Time\<close> are integers (nanoseconds), compared
  with \<open><\<close> for \<^verbatim>\<open>Before\<close> and \<open>>\<close> for \<^verbatim>\<open>After\<close>. The mutex is not modelled:
  every operation runs alone under the lock. A nil incident pointer is not modelled
  (the Go code dereferences the pointer before it changes anything).
\<close>

type_synonym addr = nat

text \<open>
  The fields of \<^verbatim>\<open>models.Incident\<close> that the store reads or writes. \<^verbatim>\<open>ResolvedAt\<close> is a
  \<^verbatim>\<open>*time.Time\<close>: \<open>None\<close> is the nil pointer.
\<close>

record Incident =
  ID :: string
  Target :: string
  Severity :: string
  Status :: string
  CreatedAt :: int
  UpdatedAt :: int
  ResolvedAt :: "int option"

text \<open>
  Modelled from the spec: the constants \<^verbatim>\<open>models.IncidentStatusActive\<close> and
  \<^verbatim>\<open>models.IncidentStatusResolved\<close> are declared outside the files at hand; the
  specification names the two statuses \<open>active\<close> and \<open>resolved\<close>.
\<close>

definition IncidentStatusActive :: string where
  "IncidentStatusActive = ''active''"

definition IncidentStatusResolved :: string where
  "IncidentStatusResolved = ''resolved''"

text \<open>Every \<^verbatim>\<open>fmt.Errorf\<close> site of the package is one constructor; \<^verbatim>\<open>%w\<close> wraps.\<close>

datatype error =
    NoFilePath
  | MarshalFailed
  | WriteTempFailed
  | RenameTempFailed
  | ReadFileFailed
  | UnmarshalFailed
  | MkdirFailed
  | ValidationFailed string
  | NotFound string
  | PersistIncidentFailed error
  | PersistUpdateFailed error
  | PersistDeletionFailed error
  | PersistCleanupFailed error

record IncidentStore =
  incidents :: "string \<rightharpoonup> addr"
  filePath :: string

text \<open>
  What lies outside the store object: the heap of incident records, the files of the
  file system (path to contents), the collections that \<^verbatim>\<open>saveToFileUnsafe\<close> has handed
  to the serialiser so far (one entry per persistence attempt, oldest first), and the
  warnings written to the logger.
\<close>

record world =
  heap :: "addr \<Rightarrow> Incident"
  files :: "string \<rightharpoonup> string"
  saveCalls :: "(string \<rightharpoonup> Incident) list"
  warnings :: "string list"

text \<open>
  What one call receives from outside the package: the caller's validation rules
  (\<^verbatim>\<open>Incident.Validate\<close>, \<open>None\<close> for nil), the string \<^verbatim>\<open>uuid.New().String()\<close>, the
  reading of \<^verbatim>\<open>time.Now()\<close>, the calendar arithmetic \<^verbatim>\<open>t.AddDate(0, 0, n)\<close>,
  \<^verbatim>\<open>json.MarshalIndent\<close> (\<open>None\<close> for an error), \<^verbatim>\<open>json.Unmarshal\<close> into the store's
  map (it returns whether it failed, and the map and heap it leaves),
  \<^verbatim>\<open>filepath.Join\<close>, and whether each file system call of this invocation fails.
\<close>

record env =
  validate :: "Incident \<Rightarrow> string option"
  uuidNew :: string
  timeNow :: int
  addDays :: "int \<Rightarrow> int \<Rightarrow> int"
  jsonMarshal :: "(string \<rightharpoonup> Incident) \<Rightarrow> string option"
  jsonUnmarshal :: "string \<Rightarrow> (string \<rightharpoonup> addr) \<Rightarrow> (addr \<Rightarrow> Incident)
                    \<Rightarrow> bool \<times> (string \<rightharpoonup> addr) \<times> (addr \<Rightarrow> Incident)"
  pathJoin :: "string \<Rightarrow> string \<Rightarrow> string"
  mkdirFails :: bool
  readFails :: bool
  writeFails :: bool
  renameFails :: bool
  removeFails :: bool

text \<open>
  The collection as the serialiser and the readers see it: each key with the record its
  pointer leads to.
\<close>

definition snapshot :: "IncidentStore \<Rightarrow> world \<Rightarrow> (string \<rightharpoonup> Incident)" where
  "snapshot s w = (\<lambda>k. map_option (heap w) (incidents s k))"

definition generateIncidentID :: "env \<Rightarrow> string" where
  "generateIncidentID E = ''inc-'' @ take 8 (uuidNew E)"

definition saveToFileUnsafe :: "env \<Rightarrow> IncidentStore \<Rightarrow> world \<Rightarrow> error option \<times> world" where
  "saveToFileUnsafe E s w =
     (if filePath s = [] then (Some NoFilePath, w)
      else
        let w1 = w\<lparr>saveCalls := saveCalls w @ [snapshot s w]\<rparr> in
        case jsonMarshal E (snapshot s w) of
          None \<Rightarrow> (Some MarshalFailed, w1)
        | Some data \<Rightarrow>
            let tempFile = filePath s @ ''.tmp'' in
            if writeFails E then (Some WriteTempFailed, w1)
            else
              let w2 = w1\<lparr>files := (files w1)(tempFile \<mapsto> data)\<rparr> in
              if renameFails E then
                (if removeFails E
                 then (Some RenameTempFailed,
                       w2\<lparr>warnings := warnings w2 @ [''Failed to remove temp file after rename failure'']\<rparr>)
                 else (Some RenameTempFailed, w2\<lparr>files := (files w2)(tempFile := None)\<rparr>))
              else (None, w2\<lparr>files := ((files w2)(tempFile := None))(filePath s \<mapsto> data)\<rparr>))"

definition Create :: "env \<Rightarrow> addr \<Rightarrow> IncidentStore \<Rightarrow> world
                       \<Rightarrow> (error + addr) \<times> IncidentStore \<times> world" where
  "Create E incident s w =
     (case validate E (heap w incident) of
        Some err \<Rightarrow> (Inl (ValidationFailed err), s, w)
      | None \<Rightarrow>
          let i0 = heap w incident;
              i1 = (if ID i0 = [] then i0\<lparr>ID := generateIncidentID E\<rparr> else i0);
              i2 = i1\<lparr>CreatedAt := timeNow E, UpdatedAt := timeNow E\<rparr>;
              i3 = (if Status i2 = [] then i2\<lparr>Status := IncidentStatusActive\<rparr> else i2);
              w1 = w\<lparr>heap := (heap w)(incident := i3)\<rparr>;
              s1 = s\<lparr>incidents := (incidents s)(ID i3 \<mapsto> incident)\<rparr>
          in if filePath s1 \<noteq> [] then
               (case saveToFileUnsafe E s1 w1 of
                  (Some err, w2) \<Rightarrow>
                    (Inl (PersistIncidentFailed err),
                     s1\<lparr>incidents := (incidents s1)(ID i3 := None)\<rparr>, w2)
                | (None, w2) \<Rightarrow> (Inr incident, s1, w2))
             else (Inr incident, s1, w1))"

definition Get :: "IncidentStore \<Rightarrow> string \<Rightarrow> error + addr" where
  "Get s id' = (case incidents s id' of None \<Rightarrow> Inl (NotFound id') | Some incident \<Rightarrow> Inr incident)"

definition Update :: "env \<Rightarrow> addr \<Rightarrow> IncidentStore \<Rightarrow> world
                       \<Rightarrow> error option \<times> IncidentStore \<times> world" where
  "Update E incident s w =
     (case incidents s (ID (heap w incident)) of
        None \<Rightarrow> (Some (NotFound (ID (heap w incident))), s, w)
      | Some oldIncident \<Rightarrow>
          let w1 = w\<lparr>heap := (heap w)(incident := (heap w incident)\<lparr>UpdatedAt := timeNow E\<rparr>)\<rparr>;
              key = ID (heap w1 incident);
              s1 = s\<lparr>incidents := (incidents s)(key \<mapsto> incident)\<rparr>
          in if filePath s1 \<noteq> [] then
               (case saveToFileUnsafe E s1 w1 of
                  (Some err, w2) \<Rightarrow>
                    (Some (PersistUpdateFailed err),
                     s1\<lparr>incidents := (incidents s1)(key \<mapsto> oldIncident)\<rparr>, w2)
                | (None, w2) \<Rightarrow> (None, s1, w2))
             else (None, s1, w1))"

definition Delete :: "env \<Rightarrow> string \<Rightarrow> IncidentStore \<Rightarrow> world
                       \<Rightarrow> error option \<times> IncidentStore \<times> world" where
  "Delete E id' s w =
     (case incidents s id' of
        None \<Rightarrow> (Some (NotFound id'), s, w)
      | Some deleted \<Rightarrow>
          let s1 = s\<lparr>incidents := (incidents s)(id' := None)\<rparr>
          in if filePath s1 \<noteq> [] then
               (case saveToFileUnsafe E s1 w of
                  (Some err, w2) \<Rightarrow>
                    (Some (PersistDeletionFailed err),
                     s1\<lparr>incidents := (incidents s1)(id' \<mapsto> deleted)\<rparr>, w2)
                | (None, w2) \<Rightarrow> (None, s1, w2))
             else (None, s1, w))"

definition Count :: "IncidentStore \<Rightarrow> nat" where
  "Count s = card (dom (incidents s))"

text \<open>
  \<^verbatim>\<open>ListFilter\<close>. Its fields \<^verbatim>\<open>Severity\<close> and \<^verbatim>\<open>Status\<close> carry a suffix here, since
  the incident's fields have these names already.
\<close>

record ListFilter =
  Namespace :: string
  Severity_f :: string
  Status_f :: string
  Limit :: int

text \<open>
  The \<^verbatim>\<open>range\<close> loop of \<^verbatim>\<open>List\<close>. Go visits the entries of a map in an order it does
  not specify, so the order of the keys is an argument: \<open>ks\<close> enumerates the keys of
  the map. Each \<^verbatim>\<open>continue\<close> is a call that leaves \<open>results\<close> as it is.
\<close>

fun listLoop :: "(addr \<Rightarrow> Incident) \<Rightarrow> ListFilter \<Rightarrow> (string \<rightharpoonup> addr) \<Rightarrow> string list
                  \<Rightarrow> addr list \<Rightarrow> addr list" where
  "listLoop h f m [] results = results"
| "listLoop h f m (k # ks) results =
     (case m k of
        None \<Rightarrow> listLoop h f m ks results
      | Some incident \<Rightarrow>
          if Namespace f \<noteq> [] \<and> Target (h incident) \<noteq> Namespace f then listLoop h f m ks results
          else if Severity_f f \<noteq> [] \<and> Severity (h incident) \<noteq> Severity_f f then listLoop h f m ks results
          else if Status_f f \<noteq> [] \<and> Status (h incident) \<noteq> Status_f f then listLoop h f m ks results
          else listLoop h f m ks (results @ [incident]))"

text \<open>
  \<^verbatim>\<open>sort.Slice\<close> with the comparison \<^verbatim>\<open>results[i].CreatedAt.After(results[j].CreatedAt)\<close>.
  The library promises an ordering by the comparison and no more (the sort is not
  stable); here it is an insertion sort that keeps equal elements in their order of
  arrival. Every order among equal elements is the result for some enumeration \<open>ks\<close>
  of the keys.
\<close>

fun insertByCreatedAt :: "(addr \<Rightarrow> Incident) \<Rightarrow> addr \<Rightarrow> addr list \<Rightarrow> addr list" where
  "insertByCreatedAt h a [] = [a]"
| "insertByCreatedAt h a (b # bs) =
     (if CreatedAt (h b) > CreatedAt (h a) then b # insertByCreatedAt h a bs else a # b # bs)"

definition sortSlice :: "(addr \<Rightarrow> Incident) \<Rightarrow> addr list \<Rightarrow> addr list" where
  "sortSlice h results = foldr (insertByCreatedAt h) results []"

definition List :: "string list \<Rightarrow> ListFilter \<Rightarrow> IncidentStore \<Rightarrow> world \<Rightarrow> addr list" where
  "List ks filter' s w =
     (let results = sortSlice (heap w) (listLoop (heap w) filter' (incidents s) ks [])
      in if Limit filter' > 0 \<and> int (length results) > Limit filter'
         then take (nat (Limit filter')) results
         else results)"

text \<open>
  \<^verbatim>\<open>LoadFromFile\<close>. \<^verbatim>\<open>os.Stat\<close> reports a missing file exactly when the path has no
  contents in \<open>files\<close>.
\<close>

definition LoadFromFile :: "env \<Rightarrow> IncidentStore \<Rightarrow> world \<Rightarrow> error option \<times> IncidentStore \<times> world" where
  "LoadFromFile E s w =
     (if filePath s = [] then (Some NoFilePath, s, w)
      else
        case files w (filePath s) of
          None \<Rightarrow> (None, s, w)
        | Some data \<Rightarrow>
            if readFails E then (Some ReadFileFailed, s, w)
            else
              (case jsonUnmarshal E data (incidents s) (heap w) of
                 (failed, m, h) \<Rightarrow>
                   if failed then (Some UnmarshalFailed, s\<lparr>incidents := m\<rparr>, w\<lparr>heap := h\<rparr>)
                   else (None, s\<lparr>incidents := m\<rparr>, w\<lparr>heap := h\<rparr>)))"

definition NewIncidentStoreWithPersistence :: "env \<Rightarrow> string \<Rightarrow> world \<Rightarrow> (error + IncidentStore) \<times> world" where
  "NewIncidentStoreWithPersistence E dataDir w =
     (if mkdirFails E then (Inl MkdirFailed, w)
      else
        let store = \<lparr>incidents = Map.empty, filePath = pathJoin E dataDir ''incidents.json''\<rparr> in
        case LoadFromFile E store w of
          (Some err, store1, w1) \<Rightarrow>
            (Inr store1,
             w1\<lparr>warnings := warnings w1 @ [''Failed to load incidents from file, starting with empty store'']\<rparr>)
        | (None, store1, w1) \<Rightarrow> (Inr store1, w1))"

text \<open>
  The \<^verbatim>\<open>range\<close> loop of \<^verbatim>\<open>CleanupOldIncidents\<close>, again over an enumeration \<open>ks\<close> of the
  keys. The loop deletes only the entry it is visiting, so every entry of the map is
  visited.
\<close>

fun cleanupLoop :: "(addr \<Rightarrow> Incident) \<Rightarrow> int \<Rightarrow> string list \<Rightarrow> (string \<rightharpoonup> addr) \<Rightarrow> nat
                     \<Rightarrow> (string \<rightharpoonup> addr) \<times> nat" where
  "cleanupLoop h cutoffTime [] m deleted = (m, deleted)"
| "cleanupLoop h cutoffTime (k # ks) m deleted =
     (case m k of
        None \<Rightarrow> cleanupLoop h cutoffTime ks m deleted
      | Some incident \<Rightarrow>
          if Status (h incident) = IncidentStatusResolved \<and> ResolvedAt (h incident) \<noteq> None then
            (if the (ResolvedAt (h incident)) < cutoffTime
             then cleanupLoop h cutoffTime ks (m(k := None)) (deleted + 1)
             else cleanupLoop h cutoffTime ks m deleted)
          else cleanupLoop h cutoffTime ks m deleted)"

definition CleanupOldIncidents :: "env \<Rightarrow> string list \<Rightarrow> int \<Rightarrow> IncidentStore \<Rightarrow> world
                                    \<Rightarrow> error option \<times> IncidentStore \<times> world" where
  "CleanupOldIncidents E ks retentionDays s w =
     (if retentionDays \<le> 0 then (None, s, w)
      else
        let cutoffTime = addDays E (timeNow E) (- retentionDays);
            (m, deleted) = cleanupLoop (heap w) cutoffTime ks (incidents s) 0;
            s1 = s\<lparr>incidents := m\<rparr>
        in if deleted > 0 \<and> filePath s1 \<noteq> [] then
             (case saveToFileUnsafe E s1 w of
                (Some err, w2) \<Rightarrow> (Some (PersistCleanupFailed err), s1, w2)
              | (None, w2) \<Rightarrow> (None, s1, w2))
           else (None, s1, w))"

section \<open>Machine config pools (package integrations)\<close>

text \<open>
  The fields of \<^verbatim>\<open>MachineConfigPoolStatus\<close>; the counts are \<^verbatim>\<open>int32\<close>.
\<close>

record MachineConfigPoolStatus =
  Name :: string
  MachineCount :: "32 word"
  UpdatedMachineCount :: "32 word"
  ReadyMachineCount :: "32 word"
  DegradedMachineCount :: "32 word"
  Updating :: bool
  Degraded :: bool
  CurrentConfiguration :: string

datatype mco_error =
    GetPoolFailed string
  | ParsePoolFailed
  | ListFailed
  | ListPoolsFailed mco_error
  | ContextCancelled string
  | DidNotStabilize string int
  | PoolFailed string mco_error
  | HealthCheckFailed mco_error

text \<open>
  The state a wait runs in: the reading of the clock (nanoseconds), every call of
  \<^verbatim>\<open>GetPoolStatus\<close> made so far (pool, time of the call, answer; oldest first), and the
  warnings logged.
\<close>

record cluster =
  clock :: int
  queries :: "(string \<times> int \<times> (mco_error + MachineConfigPoolStatus)) list"
  warns :: "string list"

text \<open>
  What the client receives from outside. \<open>apiGet\<close> is the fetch of one pool from the
  cluster API, as a function of the pool, the time of the call and the number of earlier
  calls, together with the time the call takes: the fetch fails
  (\<^verbatim>\<open>dynamicClient.Resource(mcpGVR).Get\<close> returns an error), or the object has no status
  (\<^verbatim>\<open>parsePoolStatus\<close> returns an error), or the object parses to a status. \<open>apiList\<close> is
  the listing (\<open>None\<close> for an error) and the time it takes. \<open>cancelAt\<close> is the instant at
  which the caller's context is cancelled, if ever.
\<close>

datatype api_answer = FetchError | StatusNotFound | Pool MachineConfigPoolStatus

record mco_env =
  apiGet :: "string \<Rightarrow> int \<Rightarrow> nat \<Rightarrow> api_answer \<times> nat"
  apiList :: "int \<Rightarrow> string list option \<times> nat"
  cancelAt :: "int option"

definition GetPoolStatus :: "mco_env \<Rightarrow> string \<Rightarrow> cluster
                              \<Rightarrow> (mco_error + MachineConfigPoolStatus) \<times> cluster" where
  "GetPoolStatus E poolName c =
     (case apiGet E poolName (clock c) (length (queries c)) of
        (answer, d) \<Rightarrow>
          let r = (case answer of
                     FetchError \<Rightarrow> Inl (GetPoolFailed poolName)
                   | StatusNotFound \<Rightarrow> Inl ParsePoolFailed
                   | Pool status \<Rightarrow> Inr status)
          in (r, c\<lparr>clock := clock c + int d, queries := queries c @ [(poolName, clock c, r)]\<rparr>))"

definition IsPoolStable :: "mco_env \<Rightarrow> string \<Rightarrow> cluster \<Rightarrow> (mco_error + bool) \<times> cluster" where
  "IsPoolStable E poolName c =
     (case GetPoolStatus E poolName c of
        (Inl err, c1) \<Rightarrow> (Inl err, c1)
      | (Inr status, c1) \<Rightarrow>
          (Inr (\<not> Updating status \<and> \<not> Degraded status \<and>
                UpdatedMachineCount status = MachineCount status), c1))"

definition Second :: int where
  "Second = 1000000000"

text \<open>
  One pass through the body of the loop of \<^verbatim>\<open>WaitForPoolStable\<close>: either the function
  returns (\<open>Return\<close>), or the loop goes round again (\<open>Continue\<close>). In the \<^verbatim>\<open>select\<close>, the
  context wins when it is cancelled no later than the ten seconds run out.
\<close>

datatype pass = Return "mco_error option" cluster | Continue cluster

definition pollBody :: "mco_env \<Rightarrow> string \<Rightarrow> cluster \<Rightarrow> pass" where
  "pollBody E poolName c =
     (case IsPoolStable E poolName c of
        (r, c1) \<Rightarrow>
          if r = Inr True then Return None c1
          else
            let c2 = (if isl r then c1\<lparr>warns := warns c1 @ [''Failed to check pool stability'']\<rparr> else c1);
                c3 = snd (GetPoolStatus E poolName c2)
            in (case cancelAt E of
                  None \<Rightarrow> Continue (c3\<lparr>clock := clock c3 + 10 * Second\<rparr>)
                | Some t \<Rightarrow>
                    if t \<le> clock c3 + 10 * Second
                    then Return (Some (ContextCancelled poolName)) (c3\<lparr>clock := max (clock c3) t\<rparr>)
                    else Continue (c3\<lparr>clock := clock c3 + 10 * Second\<rparr>)))"

lemma GetPoolStatus_clock: "clock c \<le> clock (snd (GetPoolStatus E poolName c))"
  by (simp add: GetPoolStatus_def Let_def split: prod.splits)

lemma IsPoolStable_clock: "clock c \<le> clock (snd (IsPoolStable E poolName c))"
proof -
  have "snd (IsPoolStable E poolName c) = snd (GetPoolStatus E poolName c)"
    by (simp add: IsPoolStable_def split: prod.splits sum.splits)
  then show ?thesis by (simp add: GetPoolStatus_clock)
qed

lemma pollBody_Continue_clock:
  assumes "pollBody E poolName c = Continue c'"
  shows "clock c + 10 * Second \<le> clock c'"
proof -
  obtain r c1 where r: "IsPoolStable E poolName c = (r, c1)" by (cases "IsPoolStable E poolName c")
  define c2 where "c2 = (if isl r then c1\<lparr>warns := warns c1 @ [''Failed to check pool stability'']\<rparr> else c1)"
  define c3 where "c3 = snd (GetPoolStatus E poolName c2)"
  have "clock c \<le> clock c1" using IsPoolStable_clock [of c E poolName] r by simp
  moreover have "clock c2 = clock c1" by (simp add: c2_def)
  moreover have "clock c2 \<le> clock c3" unfolding c3_def by (rule GetPoolStatus_clock)
  ultimately have le: "clock c \<le> clock c3" by simp
  have "c' = c3\<lparr>clock := clock c3 + 10 * Second\<rparr>"
    using assms r unfolding pollBody_def c3_def c2_def
    by (auto simp: Let_def split: option.splits if_splits)
  then show ?thesis using le by simp
qed

function pollLoop :: "mco_env \<Rightarrow> string \<Rightarrow> int \<Rightarrow> int \<Rightarrow> cluster \<Rightarrow> mco_error option \<times> cluster" where
  "pollLoop E poolName timeout deadline c =
     (if clock c < deadline then
        (case pollBody E poolName c of
           Return r c' \<Rightarrow> (r, c')
         | Continue c' \<Rightarrow> pollLoop E poolName timeout deadline c')
      else (Some (DidNotStabilize poolName timeout), c))"
  by pat_completeness auto
termination
proof (relation "measure (\<lambda>(E, poolName, timeout, deadline, c). nat (deadline - clock c))")
  show "wf (measure (\<lambda>(E, poolName, timeout, deadline, c). nat (deadline - clock c)))" by simp
next
  fix E :: mco_env and poolName :: string and timeout deadline :: int and c c' :: cluster
  assume lt: "clock c < deadline" and body: "pollBody E poolName c = Continue c'"
  have "clock c + 10 * Second \<le> clock c'" using body by (rule pollBody_Continue_clock)
  then have "clock c < clock c'" by (simp add: Second_def)
  then show "((E, poolName, timeout, deadline, c'), (E, poolName, timeout, deadline, c))
               \<in> measure (\<lambda>(E, poolName, timeout, deadline, c). nat (deadline - clock c))"
    using lt by simp
qed

declare pollLoop.simps [simp del]

definition WaitForPoolStable :: "mco_env \<Rightarrow> string \<Rightarrow> int \<Rightarrow> cluster \<Rightarrow> mco_error option \<times> cluster" where
  "WaitForPoolStable E poolName timeout c =
     (let deadline = clock c + timeout in pollLoop E poolName timeout deadline c)"

definition ListMachineConfigPools :: "mco_env \<Rightarrow> cluster \<Rightarrow> (mco_error + string list) \<times> cluster" where
  "ListMachineConfigPools E c =
     (case apiList E (clock c) of
        (None, d) \<Rightarrow> (Inl ListFailed, c\<lparr>clock := clock c + int d\<rparr>)
      | (Some poolNames, d) \<Rightarrow> (Inr poolNames, c\<lparr>clock := clock c + int d\<rparr>))"

text \<open>The \<^verbatim>\<open>for\<close> loop of \<^verbatim>\<open>WaitForAllPoolsStable\<close> over the pools listed.\<close>

fun waitEachPool :: "mco_env \<Rightarrow> int \<Rightarrow> string list \<Rightarrow> cluster \<Rightarrow> mco_error option \<times> cluster" where
  "waitEachPool E timeout [] c = (None, c)"
| "waitEachPool E timeout (poolName # rest) c =
     (case WaitForPoolStable E poolName timeout c of
        (Some err, c1) \<Rightarrow> (Some (PoolFailed poolName err), c1)
      | (None, c1) \<Rightarrow> waitEachPool E timeout rest c1)"

definition WaitForAllPoolsStable :: "mco_env \<Rightarrow> int \<Rightarrow> cluster \<Rightarrow> mco_error option \<times> cluster" where
  "WaitForAllPoolsStable E timeout c =
     (case ListMachineConfigPools E c of
        (Inl err, c1) \<Rightarrow> (Some (ListPoolsFailed err), c1)
      | (Inr pools, c1) \<Rightarrow>
          if pools = [] then (None, c1\<lparr>warns := warns c1 @ [''No MachineConfigPools found'']\<rparr>)
          else waitEachPool E timeout pools c1)"

definition HealthCheck :: "mco_env \<Rightarrow> cluster \<Rightarrow> mco_error option \<times> cluster" where
  "HealthCheck E c =
     (case ListMachineConfigPools E c of
        (Inl err, c1) \<Rightarrow> (Some (HealthCheckFailed err), c1)
      | (Inr pools, c1) \<Rightarrow> (None, c1))"

section \<open>The predicates of the specification\<close>

text \<open>
  Three notions in the words of the specification, for the statements about \<^verbatim>\<open>List\<close>,
  \<^verbatim>\<open>CleanupOldIncidents\<close> and \<^verbatim>\<open>WaitForAllPoolsStable\<close>. An incident satisfies a filter
  when it agrees with each of target, severity and status that the filter gives (an
  empty string gives none).
\<close>

definition satisfies :: "ListFilter \<Rightarrow> Incident \<Rightarrow> bool" where
  "satisfies f i \<longleftrightarrow>
     (Namespace f = [] \<or> Target i = Namespace f) \<and>
     (Severity_f f = [] \<or> Severity i = Severity_f f) \<and>
     (Status_f f = [] \<or> Status i = Status_f f)"

text \<open>
  The entry \<open>x\<close> of the map (\<open>None\<close> when the key is absent) is due for eviction at
  \<open>cutoffTime\<close>: it is resolved, it has a time of resolution, and that time is before the
  cutoff.
\<close>

definition expired :: "(addr \<Rightarrow> Incident) \<Rightarrow> int \<Rightarrow> addr option \<Rightarrow> bool" where
  "expired h cutoffTime x \<longleftrightarrow>
     (case x of
        None \<Rightarrow> False
      | Some a \<Rightarrow>
          Status (h a) = IncidentStatusResolved \<and>
          (case ResolvedAt (h a) of None \<Rightarrow> False | Some t \<Rightarrow> t < cutoffTime))"

text \<open>
  Waiting for all pools in turn: wait for each pool of the list in turn with the same
  timeout, each wait starting in the state the one before left; the state after the
  last wait when every wait succeeded, \<open>None\<close> as soon as one fails.
\<close>

fun stableInTurn :: "mco_env \<Rightarrow> int \<Rightarrow> string list \<Rightarrow> cluster \<Rightarrow> cluster option" where
  "stableInTurn E timeout [] c = Some c"
| "stableInTurn E timeout (poolName # rest) c =
     (case WaitForPoolStable E poolName timeout c of
        (None, c1) \<Rightarrow> stableInTurn E timeout rest c1
      | (Some err, c1) \<Rightarrow> None)"

section \<open>Concrete states\<close>

subsection \<open>Concrete stores\<close>

text \<open>
  A day in nanoseconds; a caller's validation rule that asks for a target; an environment
  at day 300 in which every file system call succeeds and the only well-formed file is
  the empty object; the same environment with a disk that rejects writes.
\<close>

definition Day :: int where
  "Day = 86400 * Second"

definition requireTarget :: "Incident \<Rightarrow> string option" where
  "requireTarget i = (if Target i = [] then Some ''target is required'' else None)"

definition exampleEnv :: env where
  "exampleEnv =
     \<lparr>validate = requireTarget,
      uuidNew = ''3f2a9c1e-7b4d-4e6f-8a1b-2c3d4e5f6a7b'',
      timeNow = 300 * Day,
      addDays = (\<lambda>t n. t + n * Day),
      jsonMarshal = (\<lambda>m. Some ''{}''),
      jsonUnmarshal = (\<lambda>data m h. (data \<noteq> ''{}'', m, h)),
      pathJoin = (\<lambda>dir name. dir @ ''/'' @ name),
      mkdirFails = False, readFails = False, writeFails = False, renameFails = False,
      removeFails = False\<rparr>"

definition diskFullEnv :: env where
  "diskFullEnv = exampleEnv\<lparr>writeFails := True\<rparr>"

definition incidentA :: Incident where
  "incidentA = \<lparr>ID = ''inc-0000000a'', Target = ''ns1'', Severity = ''high'', Status = ''active'',
                 CreatedAt = 0, UpdatedAt = 0, ResolvedAt = None\<rparr>"

definition incidentB :: Incident where
  "incidentB = \<lparr>ID = ''inc-0000000a'', Target = ''ns2'', Severity = ''low'', Status = ''active'',
                 CreatedAt = 7 * Day, UpdatedAt = 7 * Day, ResolvedAt = None\<rparr>"

definition incidentNoTarget :: Incident where
  "incidentNoTarget = \<lparr>ID = ''inc-0000000a'', Target = [], Severity = ''low'', Status = ''active'',
                 CreatedAt = 0, UpdatedAt = 0, ResolvedAt = None\<rparr>"

definition world0 :: world where
  "world0 = \<lparr>heap = (\<lambda>a. if a = 101 then incidentA else if a = 102 then incidentB else incidentNoTarget),
             files = Map.empty, saveCalls = [], warnings = []\<rparr>"

definition newStore :: IncidentStore where
  "newStore = \<lparr>incidents = Map.empty, filePath = ''/data/incidents.json''\<rparr>"

text \<open>
  The states reached from a new store: \<open>createdA\<close> after \<^verbatim>\<open>Create\<close> of the record at address
  101; from there \<open>createdAgain\<close> after \<^verbatim>\<open>Create\<close> of the record at 102, which carries the
  same id, on the disk that rejects writes; \<open>updatedB\<close> and \<open>updatedNoTarget\<close> after
  \<^verbatim>\<open>Update\<close> with the records at 102 and 103.
\<close>

definition createdA :: "(error + addr) \<times> IncidentStore \<times> world" where
  "createdA = Create exampleEnv 101 newStore world0"

definition createdAgain :: "(error + addr) \<times> IncidentStore \<times> world" where
  "createdAgain = Create diskFullEnv 102 (fst (snd createdA)) (snd (snd createdA))"

definition updatedB :: "error option \<times> IncidentStore \<times> world" where
  "updatedB = Update exampleEnv 102 (fst (snd createdA)) (snd (snd createdA))"

definition updatedNoTarget :: "error option \<times> IncidentStore \<times> world" where
  "updatedNoTarget = Update exampleEnv 103 (fst (snd createdA)) (snd (snd createdA))"

text \<open>
  From \<open>createdA\<close>, an \<^verbatim>\<open>Update\<close> one day later through the stored pointer, on the disk
  that rejects writes.
\<close>

definition failedUpdateA :: "error option \<times> IncidentStore \<times> world" where
  "failedUpdateA = Update (diskFullEnv\<lparr>timeNow := 301 * Day\<rparr>) 101 (fst (snd createdA)) (snd (snd createdA))"

text \<open>
  A file system whose incidents file is not well-formed.
\<close>

definition corruptWorld :: world where
  "corruptWorld = world0\<lparr>files := [''/data/incidents.json'' \<mapsto> ''{ not json'']\<rparr>"

text \<open>
  The store of three incidents of target \<open>ns1\<close> created at times 1, 3 and 2, and one of
  another target; the filter for the two newest of \<open>ns1\<close>.
\<close>

definition listWorld :: world where
  "listWorld =
     \<lparr>heap = (\<lambda>a. if a = 201 then incidentA\<lparr>ID := ''inc-a'', CreatedAt := 1\<rparr>
                  else if a = 202 then incidentA\<lparr>ID := ''inc-b'', CreatedAt := 3\<rparr>
                  else if a = 203 then incidentA\<lparr>ID := ''inc-c'', CreatedAt := 2\<rparr>
                  else incidentB\<lparr>ID := ''inc-d'', CreatedAt := 4\<rparr>),
      files = Map.empty, saveCalls = [], warnings = []\<rparr>"

definition listStore :: IncidentStore where
  "listStore =
     \<lparr>incidents = [''inc-a'' \<mapsto> 201, ''inc-b'' \<mapsto> 202, ''inc-c'' \<mapsto> 203, ''inc-d'' \<mapsto> 204],
      filePath = []\<rparr>"

definition ns1Newest2 :: ListFilter where
  "ns1Newest2 = \<lparr>Namespace = ''ns1'', Severity_f = [], Status_f = [], Limit = 2\<rparr>"

text \<open>
  A store at day 300 with an incident resolved on day 200, one resolved on day 290, an
  active one created on day 100, and a resolved one without a time of resolution; an
  enumeration of its keys.
\<close>

definition retentionWorld :: world where
  "retentionWorld =
     \<lparr>heap = (\<lambda>a. if a = 301 then incidentA\<lparr>ID := ''inc-old'', Status := ''resolved'',
                                               ResolvedAt := Some (200 * Day)\<rparr>
                  else if a = 302 then incidentA\<lparr>ID := ''inc-recent'', Status := ''resolved'',
                                               ResolvedAt := Some (290 * Day)\<rparr>
                  else if a = 303 then incidentA\<lparr>ID := ''inc-active'', CreatedAt := 100 * Day\<rparr>
                  else incidentA\<lparr>ID := ''inc-undated'', Status := ''resolved''\<rparr>),
      files = Map.empty, saveCalls = [], warnings = []\<rparr>"

definition retentionStore :: IncidentStore where
  "retentionStore =
     \<lparr>incidents = [''inc-old'' \<mapsto> 301, ''inc-recent'' \<mapsto> 302, ''inc-active'' \<mapsto> 303,
                   ''inc-undated'' \<mapsto> 304],
      filePath = ''/data/incidents.json''\<rparr>"

definition retentionKeys :: "string list" where
  "retentionKeys = [''inc-active'', ''inc-old'', ''inc-undated'', ''inc-recent'']"

text \<open>
  The environment of day 300 with a serialiser that writes, for each of these keys that
  the collection holds, the id of its record and a semicolon.
\<close>

definition retentionEnv :: env where
  "retentionEnv =
     exampleEnv\<lparr>jsonMarshal :=
       (\<lambda>m. Some (concat (map (\<lambda>k. case m k of None \<Rightarrow> [] | Some i \<Rightarrow> ID i @ '';'')
                                  retentionKeys)))\<rparr>"

subsection \<open>Concrete clusters\<close>

definition stableStatus :: "string \<Rightarrow> MachineConfigPoolStatus" where
  "stableStatus poolName =
     \<lparr>Name = poolName, MachineCount = 3, UpdatedMachineCount = 3, ReadyMachineCount = 3,
      DegradedMachineCount = 0, Updating = False, Degraded = False,
      CurrentConfiguration = ''rendered-'' @ poolName\<rparr>"

text \<open>A cluster whose pools are stable at every instant, and a context never cancelled.\<close>

definition stableEnv :: mco_env where
  "stableEnv =
     \<lparr>apiGet = (\<lambda>poolName t k. (Pool (stableStatus poolName), 0)),
      apiList = (\<lambda>t. (Some [''master'', ''worker''], 0)),
      cancelAt = None\<rparr>"

text \<open>A cluster API whose fetches fail during the first ten seconds and answer after them.\<close>

definition flakyEnv :: mco_env where
  "flakyEnv =
     \<lparr>apiGet = (\<lambda>poolName t k. if t < 10 * Second then (FetchError, 0) else (Pool (stableStatus poolName), 0)),
      apiList = (\<lambda>t. (Some [''master'', ''worker''], 0)),
      cancelAt = None\<rparr>"

text \<open>A cluster API whose every fetch fails, each taking five nanoseconds.\<close>

definition downEnv :: mco_env where
  "downEnv =
     \<lparr>apiGet = (\<lambda>poolName t k. (FetchError, 5)),
      apiList = (\<lambda>t. (Some [''master'', ''worker''], 0)),
      cancelAt = None\<rparr>"

text \<open>The failing API with a context that is cancelled after three seconds.\<close>

definition cancelledEnv :: mco_env where
  "cancelledEnv = downEnv\<lparr>cancelAt := Some (3 * Second)\<rparr>"

text \<open>
  A cluster in which \<open>master\<close> answers stable from the tenth second on and no other pool
  ever answers.
\<close>

definition lateEnv :: mco_env where
  "lateEnv =
     \<lparr>apiGet = (\<lambda>poolName t k. if poolName = ''master'' \<and> 10 * Second \<le> t
                                then (Pool (stableStatus poolName), 0) else (FetchError, 0)),
      apiList = (\<lambda>t. (Some [''master'', ''worker''], 0)),
      cancelAt = None\<rparr>"

definition cluster0 :: cluster where
  "cluster0 = \<lparr>clock = 0, queries = [], warns = []\<rparr>"

text \<open>A cluster with no pools; then the state after a wait on \<open>master\<close> that ran into its deadline
  against \<open>downEnv\<close>, and the state after both pools answered stable at once.\<close>

definition emptyEnv :: mco_env where
  "emptyEnv = \<lparr>apiGet = (\<lambda>poolName t k. (Pool (stableStatus poolName), 0)), apiList = (\<lambda>t. (Some [], 0)), cancelAt = None\<rparr>"

definition masterTimedOut :: cluster where
  "masterTimedOut =
     \<lparr>clock = 20 * Second + 20,
      queries = [(''master'', 0, Inl (GetPoolFailed ''master'')),
                 (''master'', 5, Inl (GetPoolFailed ''master'')),
                 (''master'', 10 * Second + 10, Inl (GetPoolFailed ''master'')),
                 (''master'', 10 * Second + 15, Inl (GetPoolFailed ''master''))],
      warns = [''Failed to check pool stability'', ''Failed to check pool stability'']\<rparr>"

text \<open>
  Against \<open>lateEnv\<close> with a timeout of fifteen seconds: the state when \<open>master\<close> has
  answered stable at its second poll, and the state when the wait for \<open>worker\<close>, begun
  then, has run into its own deadline.
\<close>

definition masterStableLate :: cluster where
  "masterStableLate =
     \<lparr>clock = 10 * Second,
      queries = [(''master'', 0, Inl (GetPoolFailed ''master'')),
                 (''master'', 0, Inl (GetPoolFailed ''master'')),
                 (''master'', 10 * Second, Inr (stableStatus ''master''))],
      warns = [''Failed to check pool stability'']\<rparr>"

definition workerTimedOut :: cluster where
  "workerTimedOut =
     \<lparr>clock = 30 * Second,
      queries = [(''master'', 0, Inl (GetPoolFailed ''master'')),
                 (''master'', 0, Inl (GetPoolFailed ''master'')),
                 (''master'', 10 * Second, Inr (stableStatus ''master'')),
                 (''worker'', 10 * Second, Inl (GetPoolFailed ''worker'')),
                 (''worker'', 10 * Second, Inl (GetPoolFailed ''worker'')),
                 (''worker'', 20 * Second, Inl (GetPoolFailed ''worker'')),
                 (''worker'', 20 * Second, Inl (GetPoolFailed ''worker''))],
      warns = [''Failed to check pool stability'', ''Failed to check pool stability'',
               ''Failed to check pool stability'']\<rparr>"

definition bothStable :: cluster where
  "bothStable =
     \<lparr>clock = 0,
      queries = [(''master'', 0, Inr (stableStatus ''master'')), (''worker'', 0, Inr (stableStatus ''worker''))],
      warns = []\<rparr>"

section \<open>Properties of the incident store\<close>

subsection \<open>Evaluation of the concrete runs, and what persistence leaves alone\<close>

lemma createdA_eval:
  "fst createdA = Inr 101" "incidents (fst (snd createdA)) = [''inc-0000000a'' \<mapsto> 101]"
  "filePath (fst (snd createdA)) = ''/data/incidents.json''"
  "heap (snd (snd createdA)) 101 = incidentA\<lparr>CreatedAt := 300 * Day, UpdatedAt := 300 * Day\<rparr>"
  "heap (snd (snd createdA)) 102 = incidentB"
  by (simp_all add: createdA_def Create_def saveToFileUnsafe_def exampleEnv_def requireTarget_def
        world0_def newStore_def incidentA_def incidentB_def Let_def snapshot_def)

lemma createdA_heap3: "heap (snd (snd createdA)) 103 = incidentNoTarget"
  by (simp add: createdA_def Create_def saveToFileUnsafe_def exampleEnv_def requireTarget_def
        world0_def newStore_def incidentA_def Let_def snapshot_def)

lemma saveToFileUnsafe_heap: "heap (snd (saveToFileUnsafe E s w)) = heap w"
  by (simp add: saveToFileUnsafe_def Let_def split: option.splits)

lemma saveToFileUnsafe_heap_eq: "saveToFileUnsafe E s w = (e, w2) \<Longrightarrow> heap w2 = heap w"
  using saveToFileUnsafe_heap [of E s w] by simp

lemma saveToFileUnsafe_saveCalls:
  "filePath s \<noteq> [] \<Longrightarrow> saveCalls (snd (saveToFileUnsafe E s w)) = saveCalls w @ [snapshot s w]"
  by (simp add: saveToFileUnsafe_def Let_def split: option.splits)

lemma saveToFileUnsafe_ok:
  "filePath s \<noteq> [] \<Longrightarrow>
     fst (saveToFileUnsafe E s w) = None
       \<longleftrightarrow> jsonMarshal E (snapshot s w) \<noteq> None \<and> \<not> writeFails E \<and> \<not> renameFails E"
  by (auto simp: saveToFileUnsafe_def Let_def split: option.splits)

lemma saveToFileUnsafe_files_ok:
  assumes "filePath s \<noteq> []" and "saveToFileUnsafe E s w = (None, w2)"
  shows "files w2 (filePath s) = jsonMarshal E (snapshot s w)
       \<and> files w2 (filePath s @ ''.tmp'') = None"
  using assms
  by (auto simp: saveToFileUnsafe_def Let_def split: option.splits if_splits)

lemma saveToFileUnsafe_files_failed:
  assumes "saveToFileUnsafe E s w = (Some err, w2)"
  shows "files w2 (filePath s) = files w (filePath s)"
  using assms
  by (auto simp: saveToFileUnsafe_def Let_def split: option.splits if_splits)

lemma saveToFileUnsafe_files_elsewhere:
  assumes "saveToFileUnsafe E s w = (e, w2)"
      and "path \<noteq> filePath s" and "path \<noteq> filePath s @ ''.tmp''"
  shows "files w2 path = files w path"
  using assms
  by (auto simp: saveToFileUnsafe_def Let_def split: option.splits if_splits)

lemma LoadFromFile_keeps:
  "filePath (fst (snd (LoadFromFile E s w))) = filePath s"
  "warnings (snd (snd (LoadFromFile E s w))) = warnings w"
  by (simp_all add: LoadFromFile_def split: option.splits prod.splits)

subsection \<open>What the rollbacks restore\<close>

text \<open>
  After a failed persistence attempt \<^verbatim>\<open>Delete\<close> and \<^verbatim>\<open>Update\<close> put the old pointer back, so
  the map is as before; \<^verbatim>\<open>Update\<close> has by then written \<open>UpdatedAt\<close> through the caller's
  pointer, and the record keeps it. \<^verbatim>\<open>Create\<close> restores the map when the id was not in it.
\<close>

lemma Delete_failed_persist_restores:
  assumes "Delete E k s w = (Some (PersistDeletionFailed err), s', w')"
  shows "incidents s' = incidents s \<and> filePath s' = filePath s \<and> heap w' = heap w"
proof -
  from assms obtain deleted where d: "incidents s k = Some deleted"
    by (auto simp: Delete_def split: option.splits)
  have m: "(incidents s)(k \<mapsto> deleted) = incidents s" using d by (rule map_upd_triv)
  show ?thesis
    using assms d m
    by (auto simp: Delete_def Let_def dest: saveToFileUnsafe_heap_eq
             split: if_splits prod.splits option.splits)
qed

lemma Update_failed_persist_restores_map:
  assumes "Update E p s w = (Some (PersistUpdateFailed err), s', w')"
  shows "incidents s' = incidents s \<and> filePath s' = filePath s
       \<and> heap w' = (heap w)(p := (heap w p)\<lparr>UpdatedAt := timeNow E\<rparr>)"
proof -
  from assms obtain old where d: "incidents s (ID (heap w p)) = Some old"
    by (auto simp: Update_def split: option.splits)
  have m: "(incidents s)(ID (heap w p) \<mapsto> old) = incidents s" using d by (rule map_upd_triv)
  show ?thesis
    using assms d m
    by (auto simp: Update_def Let_def dest: saveToFileUnsafe_heap_eq
             split: if_splits prod.splits option.splits)
qed

lemma Create_failed_persist_fresh_id:
  assumes "Create E p s w = (Inl (PersistIncidentFailed err), s', w')"
      and "incidents s (ID (heap w' p)) = None"
  shows "incidents s' = incidents s \<and> filePath s' = filePath s"
proof -
  define i3 where "i3 = (let i0 = heap w p;
              i1 = (if ID i0 = [] then i0\<lparr>ID := generateIncidentID E\<rparr> else i0);
              i2 = i1\<lparr>CreatedAt := timeNow E, UpdatedAt := timeNow E\<rparr>
           in (if Status i2 = [] then i2\<lparr>Status := IncidentStatusActive\<rparr> else i2))"
  define w1 where "w1 = w\<lparr>heap := (heap w)(p := i3)\<rparr>"
  define s1 where "s1 = s\<lparr>incidents := (incidents s)(ID i3 \<mapsto> p)\<rparr>"
  have "s' = s1\<lparr>incidents := (incidents s1)(ID i3 := None)\<rparr> \<and> heap w' = heap w1"
    using assms(1) saveToFileUnsafe_heap [of E s1 w1]
    by (auto simp: Create_def Let_def s1_def w1_def i3_def split: if_splits prod.splits option.splits)
  then have s': "s' = s\<lparr>incidents := (incidents s)(ID i3 := None)\<rparr>" and h: "heap w' p = i3"
    by (simp_all add: s1_def w1_def)
  from assms(2) h have "incidents s (ID i3) = None" by simp
  then have "(incidents s)(ID i3 := None) = incidents s" by (rule fun_upd_idem)
  then show ?thesis by (simp add: s')
qed

text \<open>
  When the caller updates through the pointer that \<^verbatim>\<open>Get\<close> returned, the record is the
  stored one, and the failed \<^verbatim>\<open>Update\<close> leaves its new \<open>UpdatedAt\<close> in the store.
\<close>

lemma Update_failed_persist_through_stored_pointer:
  "Get (fst (snd createdA)) ''inc-0000000a'' = Inr 101
   \<and> UpdatedAt (heap (snd (snd createdA)) 101) = 300 * Day
   \<and> fst failedUpdateA = Some (PersistUpdateFailed WriteTempFailed)
   \<and> Get (fst (snd failedUpdateA)) ''inc-0000000a'' = Inr 101
   \<and> UpdatedAt (heap (snd (snd failedUpdateA)) 101) = 301 * Day"
  by (simp add: failedUpdateA_def createdA_eval Update_def saveToFileUnsafe_def diskFullEnv_def
        exampleEnv_def incidentA_def Let_def snapshot_def Get_def)

subsection \<open>Create, Update and what they store\<close>

text \<open>
  C1: the rollback of \<^verbatim>\<open>Create\<close> deletes the key it wrote. When the key was present
  before the call, the failed call does not leave the store as it was: here the store
  holds \<open>inc-0000000a\<close>, a \<^verbatim>\<open>Create\<close> of a record with the same id fails to persist, and
  afterwards the store is empty (\<^verbatim>\<open>Get\<close> finds nothing, \<^verbatim>\<open>Count\<close> is 0).
\<close>

theorem Create_failed_persist_drops_existing:
  "Get (fst (snd createdA)) ''inc-0000000a'' = Inr 101
   \<and> Count (fst (snd createdA)) = 1
   \<and> fst createdAgain = Inl (PersistIncidentFailed WriteTempFailed)
   \<and> Get (fst (snd createdAgain)) ''inc-0000000a'' = Inl (NotFound ''inc-0000000a'')
   \<and> Count (fst (snd createdAgain)) = 0"
  by (simp add: createdAgain_def createdA_eval Create_def saveToFileUnsafe_def diskFullEnv_def exampleEnv_def
        requireTarget_def incidentB_def Let_def snapshot_def Get_def Count_def)

text \<open>
  C2, as stated, fails: \<^verbatim>\<open>Update\<close> does not validate. From a store that holds one
  incident that passed validation, an \<^verbatim>\<open>Update\<close> with a record that fails validation
  succeeds, and the record is then present in the store.
\<close>

theorem Update_stores_unvalidated:
  "fst createdA = Inr 101
   \<and> validate exampleEnv (heap (snd (snd createdA)) 101) = None
   \<and> fst updatedNoTarget = None
   \<and> snapshot (fst (snd updatedNoTarget)) (snd (snd updatedNoTarget)) ''inc-0000000a''
        = Some (incidentNoTarget\<lparr>UpdatedAt := 300 * Day\<rparr>)
   \<and> validate exampleEnv (incidentNoTarget\<lparr>UpdatedAt := 300 * Day\<rparr>) = Some ''target is required''"
  by (simp add: updatedNoTarget_def createdA_eval createdA_heap3 Update_def saveToFileUnsafe_def exampleEnv_def
        requireTarget_def incidentA_def incidentNoTarget_def Let_def snapshot_def)

text \<open>
  C2, amended: \<^verbatim>\<open>Create\<close> validates the caller's record before anything else. A record
  that fails validation is rejected with the validation error, and store, heap and
  files are as before; and when \<^verbatim>\<open>Create\<close> succeeds, the record as the caller supplied it
  passed validation, and it is the one entry added to the map.
\<close>

theorem Create_validates_first:
  "(\<forall>err. validate E (heap w p) = Some err \<longrightarrow> Create E p s w = (Inl (ValidationFailed err), s, w))
   \<and> (\<forall>a s' w'. Create E p s w = (Inr a, s', w') \<longrightarrow>
        validate E (heap w p) = None \<and> a = p \<and> incidents s' = (incidents s)(ID (heap w' p) \<mapsto> p))"
proof (intro conjI allI impI)
  fix err assume "validate E (heap w p) = Some err"
  then show "Create E p s w = (Inl (ValidationFailed err), s, w)" by (simp add: Create_def)
next
  fix a s' w' assume run: "Create E p s w = (Inr a, s', w')"
  then show "validate E (heap w p) = None" by (auto simp: Create_def split: option.splits)
  define i3 where "i3 = (let i0 = heap w p;
              i1 = (if ID i0 = [] then i0\<lparr>ID := generateIncidentID E\<rparr> else i0);
              i2 = i1\<lparr>CreatedAt := timeNow E, UpdatedAt := timeNow E\<rparr>
           in (if Status i2 = [] then i2\<lparr>Status := IncidentStatusActive\<rparr> else i2))"
  define w1 where "w1 = w\<lparr>heap := (heap w)(p := i3)\<rparr>"
  define s1 where "s1 = s\<lparr>incidents := (incidents s)(ID i3 \<mapsto> p)\<rparr>"
  have "a = p \<and> s' = s1 \<and> heap w' = heap w1"
    using run saveToFileUnsafe_heap [of E s1 w1]
    by (auto simp: Create_def Let_def s1_def w1_def i3_def split: if_splits prod.splits option.splits)
  then show "a = p" "incidents s' = (incidents s)(ID (heap w' p) \<mapsto> p)"
    by (simp_all add: s1_def w1_def)
qed

theorem Create_validates_first_witness:
  "validate exampleEnv (heap world0 103) = Some ''target is required''
   \<and> Create exampleEnv 103 newStore world0 = (Inl (ValidationFailed ''target is required''), newStore, world0)
   \<and> Create exampleEnv 101 newStore world0 = (Inr 101, fst (snd createdA), snd (snd createdA))
   \<and> validate exampleEnv (heap world0 101) = None"
proof -
  have bad: "validate exampleEnv (heap world0 103) = Some ''target is required''"
    by (simp add: exampleEnv_def world0_def requireTarget_def incidentNoTarget_def)
  have run: "Create exampleEnv 101 newStore world0 = (Inr 101, fst (snd createdA), snd (snd createdA))"
    using createdA_eval(1) by (metis createdA_def prod.collapse)
  note t = Create_validates_first [of exampleEnv world0]
  have "Create exampleEnv 103 newStore world0 = (Inl (ValidationFailed ''target is required''), newStore, world0)"
    using t [of 103 newStore] bad by blast
  moreover have "validate exampleEnv (heap world0 101) = None"
    using t [of 101 newStore] run by blast
  ultimately show ?thesis using bad run by simp
qed

text \<open>
  C3, as stated, fails: \<^verbatim>\<open>Update\<close> replaces the stored incident by the caller's record,
  \<open>CreatedAt\<close> included. The incident created on day 300 has the creation time of day 7
  after an \<^verbatim>\<open>Update\<close> with a record that carries that time.
\<close>

theorem Update_takes_callers_createdAt:
  "fst createdA = Inr 101
   \<and> map_option CreatedAt (snapshot (fst (snd createdA)) (snd (snd createdA)) ''inc-0000000a'') = Some (300 * Day)
   \<and> fst updatedB = None
   \<and> map_option CreatedAt (snapshot (fst (snd updatedB)) (snd (snd updatedB)) ''inc-0000000a'') = Some (7 * Day)"
  by (simp add: updatedB_def createdA_eval Update_def saveToFileUnsafe_def exampleEnv_def
        incidentA_def incidentB_def Let_def snapshot_def Day_def Second_def)

text \<open>
  C3, amended: after a successful \<^verbatim>\<open>Update\<close> the store holds, under the record's id, the
  caller's record with \<open>UpdatedAt\<close> set to the time of the call and every other field as
  the caller supplied it. The stored creation time is therefore unchanged exactly when
  the caller's record carries the creation time that was stored.
\<close>

theorem Update_stores_callers_record:
  assumes "Update E p s w = (None, s', w')"
  shows "\<exists>old. incidents s (ID (heap w p)) = Some old
           \<and> snapshot s' w' (ID (heap w p)) = Some ((heap w p)\<lparr>UpdatedAt := timeNow E\<rparr>)
           \<and> (map_option CreatedAt (snapshot s' w' (ID (heap w p)))
                = map_option CreatedAt (snapshot s w (ID (heap w p)))
              \<longleftrightarrow> CreatedAt (heap w p) = CreatedAt (heap w old))"
proof -
  from assms obtain old where old: "incidents s (ID (heap w p)) = Some old"
    by (auto simp: Update_def split: option.splits)
  define w1 where "w1 = w\<lparr>heap := (heap w)(p := (heap w p)\<lparr>UpdatedAt := timeNow E\<rparr>)\<rparr>"
  define s1 where "s1 = s\<lparr>incidents := (incidents s)(ID (heap w p) \<mapsto> p)\<rparr>"
  have s': "s' = s1" and w': "heap w' = heap w1"
    using assms old saveToFileUnsafe_heap [of E s1 w1]
    by (auto simp: Update_def Let_def s1_def w1_def split: if_splits prod.splits option.splits)
  have stored: "snapshot s' w' (ID (heap w p)) = Some ((heap w p)\<lparr>UpdatedAt := timeNow E\<rparr>)"
    by (simp add: snapshot_def s' w' s1_def w1_def)
  have before: "snapshot s w (ID (heap w p)) = Some (heap w old)"
    by (simp add: snapshot_def old)
  show ?thesis using old stored before by simp
qed

theorem Update_stores_callers_record_witness:
  "Update exampleEnv 102 (fst (snd createdA)) (snd (snd createdA))
     = (None, fst (snd updatedB), snd (snd updatedB))
   \<and> (\<exists>old. incidents (fst (snd createdA)) (ID (heap (snd (snd createdA)) 102)) = Some old
        \<and> snapshot (fst (snd updatedB)) (snd (snd updatedB)) (ID (heap (snd (snd createdA)) 102))
            = Some ((heap (snd (snd createdA)) 102)\<lparr>UpdatedAt := timeNow exampleEnv\<rparr>))"
proof -
  have none: "fst updatedB = None"
    by (simp add: updatedB_def createdA_eval Update_def saveToFileUnsafe_def exampleEnv_def
          incidentB_def Let_def snapshot_def)
  have run: "Update exampleEnv 102 (fst (snd createdA)) (snd (snd createdA))
     = (None, fst (snd updatedB), snd (snd updatedB))"
    using none by (metis prod.collapse updatedB_def)
  from Update_stores_callers_record [OF run] run show ?thesis by blast
qed

subsection \<open>Listing\<close>

lemma listLoop_collects:
  "listLoop h f m ks results =
     results @ map (\<lambda>k. the (m k)) (filter (\<lambda>k. m k \<noteq> None \<and> satisfies f (h (the (m k)))) ks)"
proof (induction ks arbitrary: results)
  case Nil
  show ?case by simp
next
  case (Cons k ks)
  show ?case
  proof (cases "m k")
    case None
    then show ?thesis using Cons.IH by simp
  next
    case (Some a)
    then show ?thesis using Cons.IH by (auto simp: satisfies_def)
  qed
qed

lemma mset_insertByCreatedAt: "mset (insertByCreatedAt h a bs) = add_mset a (mset bs)"
  by (induction bs) auto

lemma mset_sortSlice: "mset (sortSlice h xs) = mset xs"
  unfolding sortSlice_def by (induction xs) (simp_all add: mset_insertByCreatedAt)

lemma set_insertByCreatedAt: "set (insertByCreatedAt h a bs) = insert a (set bs)"
  by (induction bs) auto

lemma sorted_insertByCreatedAt:
  "sorted_wrt (\<lambda>a b. CreatedAt (h b) \<le> CreatedAt (h a)) bs
     \<Longrightarrow> sorted_wrt (\<lambda>a b. CreatedAt (h b) \<le> CreatedAt (h a)) (insertByCreatedAt h a bs)"
  by (induction bs) (auto simp: set_insertByCreatedAt)

lemma sorted_sortSlice: "sorted_wrt (\<lambda>a b. CreatedAt (h b) \<le> CreatedAt (h a)) (sortSlice h xs)"
  unfolding sortSlice_def by (induction xs) (simp_all add: sorted_insertByCreatedAt)

lemma sorted_wrt_take: "sorted_wrt P xs \<Longrightarrow> sorted_wrt P (take n xs)"
  by (metis append_take_drop_id sorted_wrt_append)

lemma List_limit:
  "List ks f s w =
     (if Limit f > 0 then take (nat (Limit f)) (List ks (f\<lparr>Limit := 0\<rparr>) s w)
      else List ks (f\<lparr>Limit := 0\<rparr>) s w)"
proof -
  have same: "listLoop (heap w) (f\<lparr>Limit := 0\<rparr>) (incidents s) ks [] = listLoop (heap w) f (incidents s) ks []"
    by (simp add: listLoop_collects satisfies_def)
  show ?thesis by (simp add: List_def Let_def same)
qed

lemma List_unlimited_mset:
  assumes "distinct ks" "set ks = dom (incidents s)"
  shows "mset (List ks (f\<lparr>Limit := 0\<rparr>) s w) =
    image_mset (\<lambda>k. the (incidents s k))
      (mset_set {k \<in> dom (incidents s). satisfies f (heap w (the (incidents s k)))})"
proof -
  have fin: "finite (dom (incidents s))" using assms(2) by (metis List.finite_set)
  have ks: "mset ks = mset_set (dom (incidents s))"
    using assms by (metis mset_set_set)
  have sat: "satisfies (f\<lparr>Limit := 0\<rparr>) = satisfies f" by (rule ext) (simp add: satisfies_def)
  have "mset (List ks (f\<lparr>Limit := 0\<rparr>) s w)
        = image_mset (\<lambda>k. the (incidents s k))
            (filter_mset (\<lambda>k. incidents s k \<noteq> None \<and> satisfies f (heap w (the (incidents s k)))) (mset ks))"
    by (simp add: List_def Let_def mset_sortSlice listLoop_collects sat)
  also have "filter_mset (\<lambda>k. incidents s k \<noteq> None \<and> satisfies f (heap w (the (incidents s k)))) (mset ks)
        = mset_set {k \<in> dom (incidents s). incidents s k \<noteq> None \<and> satisfies f (heap w (the (incidents s k)))}"
    using fin by (simp add: ks)
  also have "{k \<in> dom (incidents s). incidents s k \<noteq> None \<and> satisfies f (heap w (the (incidents s k)))}
        = {k \<in> dom (incidents s). satisfies f (heap w (the (incidents s k)))}"
    by auto
  finally show ?thesis .
qed

lemma List_sorted:
  "sorted_wrt (\<lambda>a b. CreatedAt (heap w b) \<le> CreatedAt (heap w a)) (List ks f s w)"
  by (simp add: List_def Let_def sorted_sortSlice sorted_wrt_take)

text \<open>
  C5: for an enumeration \<open>ks\<close> of the keys of the map (the order in which Go ranges
  over it), \<^verbatim>\<open>List\<close> without a limit returns exactly the stored incidents that satisfy
  the filter, each key once; the result of \<^verbatim>\<open>List\<close> is ordered by creation time, newest
  first; and with a limit above zero the result is the first \<open>Limit\<close> elements of the
  result without a limit, so it has at most that many.
\<close>

theorem List_filters_sorts_limits:
  assumes "distinct ks" and "set ks = dom (incidents s)"
  shows "mset (List ks (f\<lparr>Limit := 0\<rparr>) s w) =
           image_mset (\<lambda>k. the (incidents s k))
             (mset_set {k \<in> dom (incidents s). satisfies f (heap w (the (incidents s k)))})
       \<and> sorted_wrt (\<lambda>a b. CreatedAt (heap w b) \<le> CreatedAt (heap w a)) (List ks f s w)
       \<and> List ks f s w =
           (if Limit f > 0 then take (nat (Limit f)) (List ks (f\<lparr>Limit := 0\<rparr>) s w)
            else List ks (f\<lparr>Limit := 0\<rparr>) s w)
       \<and> (Limit f > 0 \<longrightarrow> int (length (List ks f s w)) \<le> Limit f)"
proof (intro conjI impI)
  show "mset (List ks (f\<lparr>Limit := 0\<rparr>) s w) =
           image_mset (\<lambda>k. the (incidents s k))
             (mset_set {k \<in> dom (incidents s). satisfies f (heap w (the (incidents s k)))})"
    using assms by (rule List_unlimited_mset)
  show "sorted_wrt (\<lambda>a b. CreatedAt (heap w b) \<le> CreatedAt (heap w a)) (List ks f s w)"
    by (rule List_sorted)
  show lim: "List ks f s w =
           (if Limit f > 0 then take (nat (Limit f)) (List ks (f\<lparr>Limit := 0\<rparr>) s w)
            else List ks (f\<lparr>Limit := 0\<rparr>) s w)"
    by (rule List_limit)
  assume "Limit f > 0"
  then show "int (length (List ks f s w)) \<le> Limit f"
    by (subst lim) simp
qed

theorem List_filters_sorts_limits_witness:
  "distinct [''inc-d'', ''inc-a'', ''inc-c'', ''inc-b'']
   \<and> set [''inc-d'', ''inc-a'', ''inc-c'', ''inc-b''] = dom (incidents listStore)
   \<and> List [''inc-d'', ''inc-a'', ''inc-c'', ''inc-b''] ns1Newest2 listStore listWorld = [202, 203]
   \<and> List [''inc-d'', ''inc-a'', ''inc-c'', ''inc-b''] (ns1Newest2\<lparr>Limit := 0\<rparr>) listStore listWorld
        = [202, 203, 201]
   \<and> sorted_wrt (\<lambda>a b. CreatedAt (heap listWorld b) \<le> CreatedAt (heap listWorld a)) [202, 203]
   \<and> mset [202, 203, 201] =
        image_mset (\<lambda>k. the (incidents listStore k))
          (mset_set {k \<in> dom (incidents listStore).
                       satisfies ns1Newest2 (heap listWorld (the (incidents listStore k)))})"
proof -
  have d: "distinct [''inc-d'', ''inc-a'', ''inc-c'', ''inc-b'']" by simp
  have k: "set [''inc-d'', ''inc-a'', ''inc-c'', ''inc-b''] = dom (incidents listStore)"
    by (auto simp: listStore_def)
  have full: "List [''inc-d'', ''inc-a'', ''inc-c'', ''inc-b''] (ns1Newest2\<lparr>Limit := 0\<rparr>) listStore listWorld
        = [202, 203, 201]"
    by (simp add: List_def sortSlice_def listStore_def listWorld_def ns1Newest2_def incidentA_def
          incidentB_def Let_def)
  note t = List_filters_sorts_limits [OF d k, of ns1Newest2 listWorld]
  have lim: "List [''inc-d'', ''inc-a'', ''inc-c'', ''inc-b''] ns1Newest2 listStore listWorld = [202, 203]"
    using t full by (simp add: ns1Newest2_def)
  have srt: "sorted_wrt (\<lambda>a b. CreatedAt (heap listWorld b) \<le> CreatedAt (heap listWorld a)) [202, 203]"
    using t lim by metis
  have ms: "mset [202, 203, 201] =
        image_mset (\<lambda>k. the (incidents listStore k))
          (mset_set {k \<in> dom (incidents listStore).
                       satisfies ns1Newest2 (heap listWorld (the (incidents listStore k)))})"
    using t full by metis
  show ?thesis using d k full lim srt ms by blast
qed

subsection \<open>Cleanup\<close>

lemma cleanupLoop_map:
  "fst (cleanupLoop h cutoffTime ks m deleted) =
     (\<lambda>k. if k \<in> set ks \<and> expired h cutoffTime (m k) then None else m k)"
proof (induction ks arbitrary: m deleted)
  case Nil
  show ?case by simp
next
  case (Cons k ks)
  show ?case
  proof (cases "expired h cutoffTime (m k)")
    case True
    then obtain a t where a: "m k = Some a" "Status (h a) = IncidentStatusResolved"
        "ResolvedAt (h a) = Some t" "t < cutoffTime"
      by (auto simp: expired_def split: option.splits)
    have "fst (cleanupLoop h cutoffTime (k # ks) m deleted)
            = fst (cleanupLoop h cutoffTime ks (m(k := None)) (deleted + 1))"
      using a by simp
    also have "\<dots> = (\<lambda>k'. if k' \<in> set ks \<and> expired h cutoffTime ((m(k := None)) k') then None
                              else (m(k := None)) k')"
      by (rule Cons.IH)
    also have "\<dots> = (\<lambda>k'. if k' \<in> set (k # ks) \<and> expired h cutoffTime (m k') then None else m k')"
      using True by (auto simp: expired_def)
    finally show ?thesis .
  next
    case False
    then have "fst (cleanupLoop h cutoffTime (k # ks) m deleted)
            = fst (cleanupLoop h cutoffTime ks m deleted)"
      by (auto simp: expired_def split: option.splits)
    also have "\<dots> = (\<lambda>k'. if k' \<in> set ks \<and> expired h cutoffTime (m k') then None else m k')"
      by (rule Cons.IH)
    also have "\<dots> = (\<lambda>k'. if k' \<in> set (k # ks) \<and> expired h cutoffTime (m k') then None else m k')"
      using False by auto
    finally show ?thesis .
  qed
qed

lemma cleanupLoop_deleted_mono: "deleted \<le> snd (cleanupLoop h cutoffTime ks m deleted)"
proof (induction ks arbitrary: m deleted)
  case Nil
  show ?case by simp
next
  case (Cons k ks)
  have "deleted \<le> snd (cleanupLoop h cutoffTime ks m deleted)"
       "deleted + 1 \<le> snd (cleanupLoop h cutoffTime ks (m(k := None)) (deleted + 1))"
    by (rule Cons.IH)+
  then show ?case by (auto split: option.splits)
qed

lemma cleanupLoop_deleted_pos:
  "deleted < snd (cleanupLoop h cutoffTime ks m deleted)
     \<longleftrightarrow> (\<exists>k \<in> set ks. expired h cutoffTime (m k))"
proof (induction ks arbitrary: m deleted)
  case Nil
  show ?case by simp
next
  case (Cons k ks)
  show ?case
  proof (cases "expired h cutoffTime (m k)")
    case True
    then obtain a t where a: "m k = Some a" "Status (h a) = IncidentStatusResolved"
        "ResolvedAt (h a) = Some t" "t < cutoffTime"
      by (auto simp: expired_def split: option.splits)
    have "deleted + 1 \<le> snd (cleanupLoop h cutoffTime ks (m(k := None)) (deleted + 1))"
      by (rule cleanupLoop_deleted_mono)
    then have "deleted < snd (cleanupLoop h cutoffTime (k # ks) m deleted)" using a by simp
    then show ?thesis using True by simp
  next
    case False
    then have "snd (cleanupLoop h cutoffTime (k # ks) m deleted)
            = snd (cleanupLoop h cutoffTime ks m deleted)"
      by (auto simp: expired_def split: option.splits)
    then show ?thesis using False Cons.IH [of deleted m] by simp
  qed
qed

lemma CleanupOldIncidents_map:
  assumes "set ks = dom (incidents s)" and "0 < retentionDays"
  shows "incidents (fst (snd (CleanupOldIncidents E ks retentionDays s w))) k =
           (if expired (heap w) (addDays E (timeNow E) (- retentionDays)) (incidents s k)
            then None else incidents s k)"
proof -
  define cutoffTime where "cutoffTime = addDays E (timeNow E) (- retentionDays)"
  obtain m deleted where loop: "cleanupLoop (heap w) cutoffTime ks (incidents s) 0 = (m, deleted)"
    by (cases "cleanupLoop (heap w) cutoffTime ks (incidents s) 0")
  have "incidents (fst (snd (CleanupOldIncidents E ks retentionDays s w))) = m"
    using assms(2) loop
    by (simp add: CleanupOldIncidents_def Let_def cutoffTime_def [symmetric] split: prod.splits option.splits)
  moreover have "m = (\<lambda>k. if k \<in> set ks \<and> expired (heap w) cutoffTime (incidents s k) then None
                            else incidents s k)"
    using cleanupLoop_map [of "heap w" cutoffTime ks "incidents s" 0] loop by simp
  moreover have "k \<notin> set ks \<Longrightarrow> incidents s k = None" using assms(1) by auto
  ultimately show ?thesis by (auto simp: cutoffTime_def)
qed

lemma retentionKeys_dom: "set retentionKeys = dom (incidents retentionStore)"
  by (auto simp: retentionKeys_def retentionStore_def)

lemma retention_expired:
  assumes "addDays E' = addDays exampleEnv" and "timeNow E' = timeNow exampleEnv"
  shows "expired (heap retentionWorld) (addDays E' (timeNow E') (- 90)) (incidents retentionStore k)
           \<longleftrightarrow> k = ''inc-old''"
  using assms
  by (simp add: expired_def retentionWorld_def retentionStore_def exampleEnv_def incidentA_def
        IncidentStatusResolved_def Day_def Second_def)

text \<open>
  C6: for an enumeration \<open>ks\<close> of the keys, \<^verbatim>\<open>CleanupOldIncidents\<close> with zero or fewer
  days returns nil and changes nothing. With more than zero days, the map afterwards
  is the map before without exactly the entries due for eviction at the cutoff
  \<^verbatim>\<open>now.AddDate(0, 0, -retentionDays)\<close>: resolved, with a time of resolution, and that time
  before the cutoff. An entry that is not resolved, or has no time of resolution, stays;
  the records themselves are untouched.
\<close>

theorem CleanupOldIncidents_evicts_expired:
  assumes "set ks = dom (incidents s)"
  shows "(retentionDays \<le> 0 \<longrightarrow> CleanupOldIncidents E ks retentionDays s w = (None, s, w))
       \<and> (0 < retentionDays \<longrightarrow>
            (\<forall>k. incidents (fst (snd (CleanupOldIncidents E ks retentionDays s w))) k =
                   (if expired (heap w) (addDays E (timeNow E) (- retentionDays)) (incidents s k)
                    then None else incidents s k))
          \<and> (\<forall>k a. incidents s k = Some a
                     \<and> (Status (heap w a) \<noteq> IncidentStatusResolved \<or> ResolvedAt (heap w a) = None)
                \<longrightarrow> incidents (fst (snd (CleanupOldIncidents E ks retentionDays s w))) k = Some a)
          \<and> heap (snd (snd (CleanupOldIncidents E ks retentionDays s w))) = heap w)"
proof (intro conjI impI allI)
  assume "retentionDays \<le> 0"
  then show "CleanupOldIncidents E ks retentionDays s w = (None, s, w)"
    by (simp add: CleanupOldIncidents_def)
next
  fix k
  assume "0 < retentionDays"
  then show "incidents (fst (snd (CleanupOldIncidents E ks retentionDays s w))) k =
                   (if expired (heap w) (addDays E (timeNow E) (- retentionDays)) (incidents s k)
                    then None else incidents s k)"
    using assms by (rule CleanupOldIncidents_map [rotated])
next
  fix k a
  assume pos: "0 < retentionDays"
    and keep: "incidents s k = Some a
                 \<and> (Status (heap w a) \<noteq> IncidentStatusResolved \<or> ResolvedAt (heap w a) = None)"
  then have "\<not> expired (heap w) (addDays E (timeNow E) (- retentionDays)) (incidents s k)"
    by (auto simp: expired_def)
  then show "incidents (fst (snd (CleanupOldIncidents E ks retentionDays s w))) k = Some a"
    using CleanupOldIncidents_map [OF assms pos, of E w k] keep by simp
next
  assume "0 < retentionDays"
  then show "heap (snd (snd (CleanupOldIncidents E ks retentionDays s w))) = heap w"
    by (auto simp: CleanupOldIncidents_def Let_def dest: saveToFileUnsafe_heap_eq
             split: prod.splits option.splits)
qed

theorem CleanupOldIncidents_evicts_expired_witness:
  "set retentionKeys = dom (incidents retentionStore)
   \<and> CleanupOldIncidents exampleEnv retentionKeys 0 retentionStore retentionWorld
        = (None, retentionStore, retentionWorld)
   \<and> incidents (fst (snd (CleanupOldIncidents exampleEnv retentionKeys 90 retentionStore retentionWorld)))
        ''inc-old'' = None
   \<and> incidents (fst (snd (CleanupOldIncidents exampleEnv retentionKeys 90 retentionStore retentionWorld)))
        ''inc-recent'' = Some 302
   \<and> incidents (fst (snd (CleanupOldIncidents exampleEnv retentionKeys 90 retentionStore retentionWorld)))
        ''inc-active'' = Some 303
   \<and> incidents (fst (snd (CleanupOldIncidents exampleEnv retentionKeys 90 retentionStore retentionWorld)))
        ''inc-undated'' = Some 304"
proof -
  note t0 = CleanupOldIncidents_evicts_expired [OF retentionKeys_dom, of 0 exampleEnv retentionWorld]
  note t90 = CleanupOldIncidents_evicts_expired [OF retentionKeys_dom, of 90 exampleEnv retentionWorld]
  have r0: "CleanupOldIncidents exampleEnv retentionKeys 0 retentionStore retentionWorld
        = (None, retentionStore, retentionWorld)"
    using t0 by simp
  have m: "incidents (fst (snd (CleanupOldIncidents exampleEnv retentionKeys 90 retentionStore retentionWorld))) k
            = (if k = ''inc-old'' then None else incidents retentionStore k)" for k
    using t90 by (simp add: retention_expired)
  have v: "incidents retentionStore ''inc-recent'' = Some 302"
    "incidents retentionStore ''inc-active'' = Some 303"
    "incidents retentionStore ''inc-undated'' = Some 304"
    by (simp_all add: retentionStore_def)
  show ?thesis using retentionKeys_dom r0 by (simp add: m v)
qed

text \<open>
  C7: when \<^verbatim>\<open>CleanupOldIncidents\<close> runs with persistence configured and at least one
  entry is due for eviction, it makes exactly one persistence attempt, and what it
  hands to the serialiser is the collection after all removals. If that attempt fails
  (the serialiser, the write or the rename fails) the call returns the persistence
  error and the incidents file holds what it held before; otherwise the call returns
  nil, the incidents file holds the serialised collection after all removals, and the
  temporary file is gone. In both cases the evicted entries are gone from the map, and
  no file other than the incidents file and its temporary file is touched.
\<close>

theorem CleanupOldIncidents_persists_once:
  assumes "set ks = dom (incidents s)" and "0 < retentionDays" and "filePath s \<noteq> []"
      and "\<exists>k. expired (heap w) (addDays E (timeNow E) (- retentionDays)) (incidents s k)"
      and "CleanupOldIncidents E ks retentionDays s w = (r, s', w')"
  shows "saveCalls w' = saveCalls w @ [snapshot s' w']
       \<and> heap w' = heap w
       \<and> (\<forall>k. incidents s' k =
                (if expired (heap w) (addDays E (timeNow E) (- retentionDays)) (incidents s k)
                 then None else incidents s k))
       \<and> (if jsonMarshal E (snapshot s' w') = None \<or> writeFails E \<or> renameFails E
          then (\<exists>err. r = Some (PersistCleanupFailed err))
             \<and> files w' (filePath s) = files w (filePath s)
          else r = None
             \<and> files w' (filePath s) = jsonMarshal E (snapshot s' w')
             \<and> files w' (filePath s @ ''.tmp'') = None)
       \<and> (\<forall>path. path \<noteq> filePath s \<and> path \<noteq> filePath s @ ''.tmp''
                 \<longrightarrow> files w' path = files w path)"
proof -
  define cutoffTime where "cutoffTime = addDays E (timeNow E) (- retentionDays)"
  obtain m deleted where loop: "cleanupLoop (heap w) cutoffTime ks (incidents s) 0 = (m, deleted)"
    by (cases "cleanupLoop (heap w) cutoffTime ks (incidents s) 0")
  define s1 where "s1 = s\<lparr>incidents := m\<rparr>"
  from assms(4) obtain k where k: "expired (heap w) cutoffTime (incidents s k)"
    by (auto simp: cutoffTime_def)
  then have "incidents s k \<noteq> None" by (auto simp: expired_def split: option.splits)
  then have "k \<in> set ks" using assms(1) by auto
  with k have "0 < snd (cleanupLoop (heap w) cutoffTime ks (incidents s) 0)"
    using cleanupLoop_deleted_pos [of 0 "heap w" cutoffTime ks "incidents s"] by blast
  then have pos: "0 < deleted" using loop by simp
  have fp: "filePath s1 \<noteq> []" using assms(3) by (simp add: s1_def)
  obtain e w2 where save: "saveToFileUnsafe E s1 w = (e, w2)" by (cases "saveToFileUnsafe E s1 w")
  have run: "CleanupOldIncidents E ks retentionDays s w =
               (case e of Some err \<Rightarrow> (Some (PersistCleanupFailed err), s1, w2) | None \<Rightarrow> (None, s1, w2))"
    using assms(2,3) loop pos save
    by (simp add: CleanupOldIncidents_def Let_def cutoffTime_def [symmetric] s1_def [symmetric]
             split: option.splits)
  have s': "s' = s1" and w': "w' = w2"
    and r: "r = (case e of Some err \<Rightarrow> Some (PersistCleanupFailed err) | None \<Rightarrow> None)"
    using run assms(5) by (auto split: option.splits)
  have hp: "heap w' = heap w" using save by (simp add: w' saveToFileUnsafe_heap_eq)
  then have snap: "snapshot s1 w' = snapshot s1 w" by (simp add: snapshot_def)
  have calls: "saveCalls w' = saveCalls w @ [snapshot s' w']"
    using saveToFileUnsafe_saveCalls [OF fp, of E w] save snap by (simp add: s' w')
  have map: "\<forall>k. incidents s' k =
                (if expired (heap w) (addDays E (timeNow E) (- retentionDays)) (incidents s k)
                 then None else incidents s k)"
    using CleanupOldIncidents_map [OF assms(1,2), of E w] assms(5) by simp
  have "e = None \<longleftrightarrow> jsonMarshal E (snapshot s1 w) \<noteq> None \<and> \<not> writeFails E \<and> \<not> renameFails E"
    using saveToFileUnsafe_ok [OF fp, of E w] save by simp
  then have fails: "jsonMarshal E (snapshot s' w') = None \<or> writeFails E \<or> renameFails E
                     \<longleftrightarrow> e \<noteq> None"
    using snap by (auto simp: s')
  have fp1: "filePath s1 = filePath s" by (simp add: s1_def)
  have res: "if jsonMarshal E (snapshot s' w') = None \<or> writeFails E \<or> renameFails E
          then (\<exists>err. r = Some (PersistCleanupFailed err))
             \<and> files w' (filePath s) = files w (filePath s)
          else r = None
             \<and> files w' (filePath s) = jsonMarshal E (snapshot s' w')
             \<and> files w' (filePath s @ ''.tmp'') = None"
  proof (cases e)
    case None
    with save have ok: "saveToFileUnsafe E s1 w = (None, w2)" by simp
    have "files w2 (filePath s1) = jsonMarshal E (snapshot s1 w)
            \<and> files w2 (filePath s1 @ ''.tmp'') = None"
      using fp ok by (rule saveToFileUnsafe_files_ok)
    then have "files w' (filePath s) = jsonMarshal E (snapshot s' w')
            \<and> files w' (filePath s @ ''.tmp'') = None"
      using snap by (simp add: s' w' fp1)
    moreover have "r = None" using r None by simp
    ultimately show ?thesis using fails None by simp
  next
    case (Some err)
    with save have bad: "saveToFileUnsafe E s1 w = (Some err, w2)" by simp
    have "files w2 (filePath s1) = files w (filePath s1)"
      using bad by (rule saveToFileUnsafe_files_failed)
    then have "files w' (filePath s) = files w (filePath s)" by (simp add: w' fp1)
    moreover have "r = Some (PersistCleanupFailed err)" using r Some by simp
    ultimately show ?thesis using fails Some by simp
  qed
  have rest: "\<forall>path. path \<noteq> filePath s \<and> path \<noteq> filePath s @ ''.tmp''
                 \<longrightarrow> files w' path = files w path"
    using saveToFileUnsafe_files_elsewhere [OF save] by (simp add: w' fp1)
  show ?thesis using calls hp map res rest by blast
qed

theorem CleanupOldIncidents_persists_once_witness:
  "set retentionKeys = dom (incidents retentionStore) \<and> (0::int) < 90
   \<and> filePath retentionStore \<noteq> []
   \<and> expired (heap retentionWorld) (addDays diskFullEnv (timeNow diskFullEnv) (- 90))
        (incidents retentionStore ''inc-old'')
   \<and> fst (CleanupOldIncidents diskFullEnv retentionKeys 90 retentionStore retentionWorld)
        = Some (PersistCleanupFailed WriteTempFailed)
   \<and> incidents (fst (snd (CleanupOldIncidents diskFullEnv retentionKeys 90 retentionStore retentionWorld)))
        ''inc-old'' = None
   \<and> length (saveCalls (snd (snd (CleanupOldIncidents diskFullEnv retentionKeys 90 retentionStore
                                     retentionWorld)))) = 1
   \<and> files (snd (snd (CleanupOldIncidents diskFullEnv retentionKeys 90 retentionStore retentionWorld)))
        ''/data/incidents.json'' = None
   \<and> expired (heap retentionWorld) (addDays retentionEnv (timeNow retentionEnv) (- 90))
        (incidents retentionStore ''inc-old'')
   \<and> fst (CleanupOldIncidents retentionEnv retentionKeys 90 retentionStore retentionWorld) = None
   \<and> files (snd (snd (CleanupOldIncidents retentionEnv retentionKeys 90 retentionStore retentionWorld)))
        ''/data/incidents.json'' = Some ''inc-active;inc-undated;inc-recent;''
   \<and> files (snd (snd (CleanupOldIncidents retentionEnv retentionKeys 90 retentionStore retentionWorld)))
        ''/data/incidents.json.tmp'' = None"
proof -
  define run where "run = CleanupOldIncidents diskFullEnv retentionKeys 90 retentionStore retentionWorld"
  have env: "addDays diskFullEnv = addDays exampleEnv" "timeNow diskFullEnv = timeNow exampleEnv"
    by (simp_all add: diskFullEnv_def)
  have h2: "(0::int) < 90" by simp
  have h3: "filePath retentionStore \<noteq> []" by (simp add: retentionStore_def)
  have path: "filePath retentionStore = ''/data/incidents.json''" by (simp add: retentionStore_def)
  have old: "expired (heap retentionWorld) (addDays diskFullEnv (timeNow diskFullEnv) (- 90))
        (incidents retentionStore ''inc-old'')"
    using retention_expired [OF env] by simp
  then have h4: "\<exists>k. expired (heap retentionWorld) (addDays diskFullEnv (timeNow diskFullEnv) (- 90))
        (incidents retentionStore k)" ..
  have h5: "CleanupOldIncidents diskFullEnv retentionKeys 90 retentionStore retentionWorld
              = (fst run, fst (snd run), snd (snd run))"
    by (simp add: run_def)
  note t = CleanupOldIncidents_persists_once [OF retentionKeys_dom h2 h3 h4 h5]
  have fails: "writeFails diskFullEnv" by (simp add: diskFullEnv_def)
  from t fails obtain err where err: "fst run = Some (PersistCleanupFailed err)" by auto
  have "err = WriteTempFailed"
    using err fails
    by (auto simp: run_def CleanupOldIncidents_def saveToFileUnsafe_def Let_def diskFullEnv_def exampleEnv_def
             split: prod.splits option.splits if_splits)
  with err have r: "fst run = Some (PersistCleanupFailed WriteTempFailed)" by simp
  have gone: "incidents (fst (snd run)) ''inc-old'' = None" using t old by simp
  have once: "length (saveCalls (snd (snd run))) = 1" using t by (simp add: retentionWorld_def)
  from t fails have "files (snd (snd run)) (filePath retentionStore)
                       = files retentionWorld (filePath retentionStore)"
    by simp
  then have kept: "files (snd (snd run)) ''/data/incidents.json'' = None"
    by (simp add: path retentionWorld_def)
  define good where "good = CleanupOldIncidents retentionEnv retentionKeys 90 retentionStore retentionWorld"
  have genv: "addDays retentionEnv = addDays exampleEnv" "timeNow retentionEnv = timeNow exampleEnv"
    by (simp_all add: retentionEnv_def)
  have gold: "expired (heap retentionWorld) (addDays retentionEnv (timeNow retentionEnv) (- 90))
        (incidents retentionStore ''inc-old'')"
    using retention_expired [OF genv] by simp
  then have g4: "\<exists>k. expired (heap retentionWorld) (addDays retentionEnv (timeNow retentionEnv) (- 90))
        (incidents retentionStore k)" ..
  have g5: "CleanupOldIncidents retentionEnv retentionKeys 90 retentionStore retentionWorld
              = (fst good, fst (snd good), snd (snd good))"
    by (simp add: good_def)
  note g = CleanupOldIncidents_persists_once [OF retentionKeys_dom h2 h3 g4 g5]
  have works: "\<not> (jsonMarshal retentionEnv (snapshot (fst (snd good)) (snd (snd good))) = None
                   \<or> writeFails retentionEnv \<or> renameFails retentionEnv)"
    by (simp add: retentionEnv_def exampleEnv_def)
  have gm: "incidents (fst (snd good)) k
              = (if k = ''inc-old'' then None else incidents retentionStore k)" for k
    using g retention_expired [OF genv] by simp
  have gh: "heap (snd (snd good)) = heap retentionWorld" using g by simp
  have data: "jsonMarshal retentionEnv (snapshot (fst (snd good)) (snd (snd good)))
                = Some ''inc-active;inc-undated;inc-recent;''"
    by (simp add: retentionEnv_def snapshot_def gm gh retentionKeys_def retentionStore_def
          retentionWorld_def incidentA_def)
  from g works have gr: "fst good = None"
    and gf: "files (snd (snd good)) (filePath retentionStore)
               = jsonMarshal retentionEnv (snapshot (fst (snd good)) (snd (snd good)))"
    and gt: "files (snd (snd good)) (filePath retentionStore @ ''.tmp'') = None"
    by presburger+
  have written: "files (snd (snd good)) ''/data/incidents.json''
                   = Some ''inc-active;inc-undated;inc-recent;''"
    using gf data by (simp add: path)
  have cleaned: "files (snd (snd good)) ''/data/incidents.json.tmp'' = None"
    using gt by (simp add: path)
  show ?thesis
    using retentionKeys_dom h2 h3 old r gone once kept gold gr written cleaned
    unfolding run_def good_def by blast
qed

subsection \<open>Loading at startup\<close>

text \<open>
  C8, as stated, fails: on a file that is not well-formed \<^verbatim>\<open>LoadFromFile\<close> returns an
  error, and \<^verbatim>\<open>NewIncidentStoreWithPersistence\<close> returns a store and no error.
\<close>

theorem startup_hides_load_error:
  "fst (LoadFromFile exampleEnv newStore corruptWorld) = Some UnmarshalFailed
   \<and> fst (NewIncidentStoreWithPersistence exampleEnv ''/data'' corruptWorld) = Inr newStore"
  by (simp add: NewIncidentStoreWithPersistence_def LoadFromFile_def exampleEnv_def newStore_def
        corruptWorld_def Let_def)

text \<open>
  C8, amended: \<^verbatim>\<open>LoadFromFile\<close> returns nil and changes nothing when the file is missing,
  and returns an error to its caller when the file is there and \<^verbatim>\<open>json.Unmarshal\<close>
  rejects it. \<^verbatim>\<open>NewIncidentStoreWithPersistence\<close>, once the directory exists, always
  returns a store and no error: an error of the load is written to the log as a warning
  and goes no further.
\<close>

theorem load_at_startup:
  "(filePath s \<noteq> [] \<and> files w (filePath s) = None \<longrightarrow> LoadFromFile E s w = (None, s, w))
   \<and> (\<forall>data. filePath s \<noteq> [] \<and> files w (filePath s) = Some data \<and> \<not> readFails E
              \<and> fst (jsonUnmarshal E data (incidents s) (heap w))
          \<longrightarrow> fst (LoadFromFile E s w) = Some UnmarshalFailed)
   \<and> (\<not> mkdirFails E \<longrightarrow>
         (\<exists>st. fst (NewIncidentStoreWithPersistence E dataDir w) = Inr st
              \<and> filePath st = pathJoin E dataDir ''incidents.json'')
       \<and> warnings (snd (NewIncidentStoreWithPersistence E dataDir w)) =
           (case fst (LoadFromFile E \<lparr>incidents = Map.empty,
                                       filePath = pathJoin E dataDir ''incidents.json''\<rparr> w) of
              None \<Rightarrow> warnings w
            | Some err \<Rightarrow>
                warnings w @ [''Failed to load incidents from file, starting with empty store'']))"
proof (intro conjI allI impI)
  assume "filePath s \<noteq> [] \<and> files w (filePath s) = None"
  then show "LoadFromFile E s w = (None, s, w)" by (simp add: LoadFromFile_def)
next
  fix data
  assume "filePath s \<noteq> [] \<and> files w (filePath s) = Some data \<and> \<not> readFails E
              \<and> fst (jsonUnmarshal E data (incidents s) (heap w))"
  then show "fst (LoadFromFile E s w) = Some UnmarshalFailed"
    by (cases "jsonUnmarshal E data (incidents s) (heap w)") (simp add: LoadFromFile_def)
next
  define store where "store = \<lparr>incidents = Map.empty, filePath = pathJoin E dataDir ''incidents.json''\<rparr>"
  obtain r store1 w1 where load: "LoadFromFile E store w = (r, store1, w1)"
    by (cases "LoadFromFile E store w")
  have keep: "filePath store1 = filePath store" "warnings w1 = warnings w"
    using LoadFromFile_keeps [of E store w] load by simp_all
  assume ok: "\<not> mkdirFails E"
  have res: "fst (NewIncidentStoreWithPersistence E dataDir w) = Inr store1"
    using ok load by (cases r) (simp_all add: NewIncidentStoreWithPersistence_def store_def)
  then show "\<exists>st. fst (NewIncidentStoreWithPersistence E dataDir w) = Inr st
              \<and> filePath st = pathJoin E dataDir ''incidents.json''"
    using keep by (simp add: store_def)
  show "warnings (snd (NewIncidentStoreWithPersistence E dataDir w)) =
           (case fst (LoadFromFile E \<lparr>incidents = Map.empty,
                                       filePath = pathJoin E dataDir ''incidents.json''\<rparr> w) of
              None \<Rightarrow> warnings w
            | Some err \<Rightarrow>
                warnings w @ [''Failed to load incidents from file, starting with empty store''])"
    using ok load keep by (cases r) (simp_all add: NewIncidentStoreWithPersistence_def store_def)
qed

theorem load_at_startup_witness:
  "filePath newStore \<noteq> [] \<and> files world0 (filePath newStore) = None
   \<and> LoadFromFile exampleEnv newStore world0 = (None, newStore, world0)
   \<and> files corruptWorld (filePath newStore) = Some ''{ not json'' \<and> \<not> readFails exampleEnv
   \<and> fst (jsonUnmarshal exampleEnv ''{ not json'' (incidents newStore) (heap corruptWorld))
   \<and> fst (LoadFromFile exampleEnv newStore corruptWorld) = Some UnmarshalFailed
   \<and> \<not> mkdirFails exampleEnv
   \<and> fst (NewIncidentStoreWithPersistence exampleEnv ''/data'' corruptWorld) = Inr newStore
   \<and> warnings (snd (NewIncidentStoreWithPersistence exampleEnv ''/data'' corruptWorld))
       = [''Failed to load incidents from file, starting with empty store'']"
proof -
  have h1: "filePath newStore \<noteq> [] \<and> files world0 (filePath newStore) = None"
    by (simp add: newStore_def world0_def)
  have h2: "filePath newStore \<noteq> [] \<and> files corruptWorld (filePath newStore) = Some ''{ not json''
              \<and> \<not> readFails exampleEnv
              \<and> fst (jsonUnmarshal exampleEnv ''{ not json'' (incidents newStore) (heap corruptWorld))"
    by (simp add: newStore_def corruptWorld_def exampleEnv_def)
  have h3: "\<not> mkdirFails exampleEnv" by (simp add: exampleEnv_def)
  have path: "pathJoin exampleEnv ''/data'' ''incidents.json'' = ''/data/incidents.json''"
    by (simp add: exampleEnv_def)
  note t0 = load_at_startup [of newStore world0 exampleEnv "''/data''"]
  note t1 = load_at_startup [of newStore corruptWorld exampleEnv "''/data''"]
  have r1: "LoadFromFile exampleEnv newStore world0 = (None, newStore, world0)"
    using t0 h1 by blast
  have r2: "fst (LoadFromFile exampleEnv newStore corruptWorld) = Some UnmarshalFailed"
    using t1 h2 by blast
  have r3: "fst (NewIncidentStoreWithPersistence exampleEnv ''/data'' corruptWorld) = Inr newStore"
    by (simp add: NewIncidentStoreWithPersistence_def LoadFromFile_def exampleEnv_def newStore_def
        corruptWorld_def Let_def)
  have r4: "warnings (snd (NewIncidentStoreWithPersistence exampleEnv ''/data'' corruptWorld))
       = [''Failed to load incidents from file, starting with empty store'']"
    using t1 h3 r2 by (simp add: path newStore_def [symmetric] corruptWorld_def world0_def)
  show ?thesis using h1 h2 h3 r1 r2 r3 r4 by simp
qed

section \<open>Properties of the waits\<close>

lemma pollBody_Return:
  assumes "pollBody E p c = Return r c'"
  shows "\<exists>new. queries c' = queries c @ new \<and>
     ((r = None \<and> (\<exists>t status. (p, t, Inr status) \<in> set new \<and> \<not> Updating status \<and> \<not> Degraded status
                       \<and> UpdatedMachineCount status = MachineCount status))
      \<or> (r = Some (ContextCancelled p) \<and> (\<exists>t. cancelAt E = Some t \<and> t \<le> clock c')))"
  using assms
  by (auto simp: pollBody_def IsPoolStable_def GetPoolStatus_def Let_def
           split: prod.splits sum.splits option.splits api_answer.splits if_splits)

lemma pollBody_Continue_queries:
  assumes "pollBody E p c = Continue c'"
  shows "\<exists>new. queries c' = queries c @ new"
  using assms
  by (auto simp: pollBody_def IsPoolStable_def GetPoolStatus_def Let_def
           split: prod.splits sum.splits option.splits api_answer.splits if_splits)

lemma pollLoop_outcomes:
  "pollLoop E p timeout deadline c = (r, c') \<Longrightarrow>
   \<exists>new. queries c' = queries c @ new \<and>
     ((r = None \<and> (\<exists>t status. (p, t, Inr status) \<in> set new \<and> \<not> Updating status \<and> \<not> Degraded status
                       \<and> UpdatedMachineCount status = MachineCount status))
      \<or> (r = Some (DidNotStabilize p timeout) \<and> deadline \<le> clock c')
      \<or> (r = Some (ContextCancelled p) \<and> (\<exists>t. cancelAt E = Some t \<and> t \<le> clock c')))"
proof (induction E p timeout deadline c rule: pollLoop.induct)
  case (1 E p timeout deadline c)
  show ?case
  proof (cases "clock c < deadline")
    case False
    with "1.prems" show ?thesis by (simp add: pollLoop.simps)
  next
    case True
    show ?thesis
    proof (cases "pollBody E p c")
      case (Return r0 c0)
      with True "1.prems" have "r0 = r" "c0 = c'" by (simp_all add: pollLoop.simps)
      with Return pollBody_Return [of E p c r c'] show ?thesis by blast
    next
      case (Continue c1)
      with True "1.prems" have run: "pollLoop E p timeout deadline c1 = (r, c')"
        by (simp add: pollLoop.simps)
      from Continue obtain n1 where n1: "queries c1 = queries c @ n1"
        using pollBody_Continue_queries by blast
      from "1.IH" [OF True Continue run] obtain n2 where
        n2: "queries c' = queries c1 @ n2" and
        out: "(r = None \<and> (\<exists>t status. (p, t, Inr status) \<in> set n2 \<and> \<not> Updating status \<and> \<not> Degraded status
                       \<and> UpdatedMachineCount status = MachineCount status))
      \<or> (r = Some (DidNotStabilize p timeout) \<and> deadline \<le> clock c')
      \<or> (r = Some (ContextCancelled p) \<and> (\<exists>t. cancelAt E = Some t \<and> t \<le> clock c'))"
        by blast
      have "queries c' = queries c @ (n1 @ n2)" using n1 n2 by simp
      moreover have "set n2 \<subseteq> set (n1 @ n2)" by simp
      ultimately show ?thesis using out by blast
    qed
  qed
qed

text \<open>
  C9: whatever the cluster API answers, \<^verbatim>\<open>WaitForPoolStable\<close> ends in one of three ways.
  It returns nil, and then one of the fetches it made for this pool answered with a
  status that is not updating, not degraded and has every machine updated; or it
  returns the error of the deadline, and then the clock has reached the deadline; or
  it returns the error of the cancelled context, and then the context was cancelled by
  that time. An error of the API (\<open>GetPoolFailed\<close>, \<open>ParsePoolFailed\<close>) is none of the
  three, so it is never the result.
\<close>

theorem WaitForPoolStable_outcomes:
  assumes "WaitForPoolStable E poolName timeout c = (r, c')"
  shows "\<exists>new. queries c' = queries c @ new \<and>
     ((r = None \<and> (\<exists>t status. (poolName, t, Inr status) \<in> set new \<and> \<not> Updating status
                       \<and> \<not> Degraded status \<and> UpdatedMachineCount status = MachineCount status))
      \<or> (r = Some (DidNotStabilize poolName timeout) \<and> clock c + timeout \<le> clock c')
      \<or> (r = Some (ContextCancelled poolName) \<and> (\<exists>t. cancelAt E = Some t \<and> t \<le> clock c')))"
  using assms pollLoop_outcomes [of E poolName timeout "clock c + timeout" c r c']
  by (simp add: WaitForPoolStable_def)

theorem WaitForPoolStable_outcomes_witness:
  "WaitForPoolStable flakyEnv ''worker'' (15 * Second) cluster0 =
     (None, \<lparr>clock = 10 * Second,
             queries = [(''worker'', 0, Inl (GetPoolFailed ''worker'')),
                        (''worker'', 0, Inl (GetPoolFailed ''worker'')),
                        (''worker'', 10 * Second, Inr (stableStatus ''worker''))],
             warns = [''Failed to check pool stability'']\<rparr>)
   \<and> (\<exists>t status. (''worker'', t, Inr status)
                     \<in> set [(''worker'', 0, Inl (GetPoolFailed ''worker'')),
                            (''worker'', 0, Inl (GetPoolFailed ''worker'')),
                            (''worker'', 10 * Second, Inr (stableStatus ''worker''))]
                  \<and> \<not> Updating status \<and> \<not> Degraded status
                  \<and> UpdatedMachineCount status = MachineCount status)
   \<and> fst (WaitForPoolStable downEnv ''worker'' (15 * Second) cluster0)
        = Some (DidNotStabilize ''worker'' (15 * Second))
   \<and> clock cluster0 + 15 * Second
        \<le> clock (snd (WaitForPoolStable downEnv ''worker'' (15 * Second) cluster0))
   \<and> fst (WaitForPoolStable cancelledEnv ''worker'' (15 * Second) cluster0)
        = Some (ContextCancelled ''worker'')
   \<and> cancelAt cancelledEnv = Some (3 * Second)
   \<and> 3 * Second \<le> clock (snd (WaitForPoolStable cancelledEnv ''worker'' (15 * Second) cluster0))"
proof -
  define stableAt10 where "stableAt10 =
     \<lparr>clock = 10 * Second,
      queries = [(''worker'', 0, Inl (GetPoolFailed ''worker'')),
                 (''worker'', 0, Inl (GetPoolFailed ''worker'')),
                 (''worker'', 10 * Second, Inr (stableStatus ''worker''))],
      warns = [''Failed to check pool stability'']\<rparr>"
  have run1: "WaitForPoolStable flakyEnv ''worker'' (15 * Second) cluster0 = (None, stableAt10)"
    unfolding stableAt10_def by code_simp
  from WaitForPoolStable_outcomes [OF run1]
  obtain new where new: "queries stableAt10 = queries cluster0 @ new"
    and ok: "\<exists>t status. (''worker'', t, Inr status) \<in> set new \<and> \<not> Updating status
                  \<and> \<not> Degraded status \<and> UpdatedMachineCount status = MachineCount status"
    by auto
  from new have new_eq: "new = [(''worker'', 0, Inl (GetPoolFailed ''worker'')),
                            (''worker'', 0, Inl (GetPoolFailed ''worker'')),
                            (''worker'', 10 * Second, Inr (stableStatus ''worker''))]"
    by (simp add: stableAt10_def cluster0_def)
  have r2: "fst (WaitForPoolStable downEnv ''worker'' (15 * Second) cluster0)
        = Some (DidNotStabilize ''worker'' (15 * Second))"
    by code_simp
  have run2: "WaitForPoolStable downEnv ''worker'' (15 * Second) cluster0
        = (Some (DidNotStabilize ''worker'' (15 * Second)),
           snd (WaitForPoolStable downEnv ''worker'' (15 * Second) cluster0))"
    using r2 by (metis prod.collapse)
  have late: "clock cluster0 + 15 * Second
        \<le> clock (snd (WaitForPoolStable downEnv ''worker'' (15 * Second) cluster0))"
    using WaitForPoolStable_outcomes [OF run2] by auto
  have r3: "fst (WaitForPoolStable cancelledEnv ''worker'' (15 * Second) cluster0)
        = Some (ContextCancelled ''worker'')"
    by code_simp
  have run3: "WaitForPoolStable cancelledEnv ''worker'' (15 * Second) cluster0
        = (Some (ContextCancelled ''worker''),
           snd (WaitForPoolStable cancelledEnv ''worker'' (15 * Second) cluster0))"
    using r3 by (metis prod.collapse)
  have at: "cancelAt cancelledEnv = Some (3 * Second)" by (simp add: cancelledEnv_def)
  have gone: "3 * Second \<le> clock (snd (WaitForPoolStable cancelledEnv ''worker'' (15 * Second) cluster0))"
    using WaitForPoolStable_outcomes [OF run3] at by auto
  show ?thesis using run1 ok r2 late r3 at gone unfolding stableAt10_def new_eq by blast
qed

text \<open>
  C10: with a timeout of zero or less, \<^verbatim>\<open>WaitForPoolStable\<close> returns the error of the
  deadline at once and leaves the state as it found it: the clock has not moved and no
  fetch was made, whatever the cluster API would have answered.
\<close>

theorem WaitForPoolStable_nonpositive_timeout:
  assumes "timeout \<le> 0"
  shows "WaitForPoolStable E poolName timeout c = (Some (DidNotStabilize poolName timeout), c)"
proof -
  have "\<not> clock c < clock c + timeout" using assms by simp
  then show ?thesis by (simp add: WaitForPoolStable_def pollLoop.simps)
qed

theorem WaitForPoolStable_nonpositive_timeout_witness:
  "(0::int) \<le> 0
   \<and> WaitForPoolStable stableEnv ''worker'' 0 cluster0 = (Some (DidNotStabilize ''worker'' 0), cluster0)
   \<and> queries (snd (WaitForPoolStable stableEnv ''worker'' 0 cluster0)) = []
   \<and> fst (IsPoolStable stableEnv ''worker'' cluster0) = Inr True"
proof -
  have stable: "fst (IsPoolStable stableEnv ''worker'' cluster0) = Inr True"
    by (simp add: IsPoolStable_def GetPoolStatus_def stableEnv_def stableStatus_def Let_def)
  have "WaitForPoolStable stableEnv ''worker'' 0 cluster0 = (Some (DidNotStabilize ''worker'' 0), cluster0)"
    by (rule WaitForPoolStable_nonpositive_timeout) simp
  then show ?thesis using stable by (simp add: cluster0_def)
qed

lemma pollBody_fetches:
  "\<exists>new. queries (case pollBody E p c of Return r c' \<Rightarrow> c' | Continue c' \<Rightarrow> c') = queries c @ new
         \<and> (\<forall>q \<in> set new. fst q = p)"
  by (auto simp: pollBody_def IsPoolStable_def GetPoolStatus_def Let_def
           split: prod.splits sum.splits option.splits api_answer.splits)

lemma pollLoop_fetches:
  "pollLoop E p timeout deadline c = (r, c') \<Longrightarrow>
     \<exists>new. queries c' = queries c @ new \<and> (\<forall>q \<in> set new. fst q = p)"
proof (induction E p timeout deadline c rule: pollLoop.induct)
  case (1 E p timeout deadline c)
  show ?case
  proof (cases "clock c < deadline")
    case False
    with "1.prems" show ?thesis by (simp add: pollLoop.simps)
  next
    case True
    from pollBody_fetches [of E p c] obtain n1 where
      n1: "queries (case pollBody E p c of Return r c' \<Rightarrow> c' | Continue c' \<Rightarrow> c') = queries c @ n1"
          "\<forall>q \<in> set n1. fst q = p"
      by blast
    show ?thesis
    proof (cases "pollBody E p c")
      case (Return r0 c0)
      with True "1.prems" have "c0 = c'" by (simp add: pollLoop.simps)
      with Return n1 show ?thesis by auto
    next
      case (Continue c1)
      with True "1.prems" have run: "pollLoop E p timeout deadline c1 = (r, c')"
        by (simp add: pollLoop.simps)
      from "1.IH" [OF True Continue run] obtain n2 where
        n2: "queries c' = queries c1 @ n2" "\<forall>q \<in> set n2. fst q = p"
        by blast
      have "queries c' = queries c @ (n1 @ n2)" using n1(1) n2(1) Continue by simp
      moreover have "\<forall>q \<in> set (n1 @ n2). fst q = p" using n1(2) n2(2) by auto
      ultimately show ?thesis by blast
    qed
  qed
qed

lemma WaitForPoolStable_fetches:
  "WaitForPoolStable E p timeout c = (r, c') \<Longrightarrow>
     \<exists>new. queries c' = queries c @ new \<and> (\<forall>q \<in> set new. fst q = p)"
  by (simp add: WaitForPoolStable_def pollLoop_fetches)

lemma stableInTurn_fetches:
  "stableInTurn E timeout ps c = Some c' \<Longrightarrow>
     \<exists>new. queries c' = queries c @ new \<and> (\<forall>q \<in> set new. fst q \<in> set ps)"
proof (induction ps arbitrary: c)
  case Nil
  then show ?case by simp
next
  case (Cons p ps)
  obtain r c1 where w: "WaitForPoolStable E p timeout c = (r, c1)"
    by (cases "WaitForPoolStable E p timeout c")
  with Cons.prems have r: "r = None" and rest: "stableInTurn E timeout ps c1 = Some c'"
    by (auto split: option.splits)
  from WaitForPoolStable_fetches [OF w] obtain n1 where
    n1: "queries c1 = queries c @ n1" "\<forall>q \<in> set n1. fst q = p" by blast
  from Cons.IH [OF rest] obtain n2 where
    n2: "queries c' = queries c1 @ n2" "\<forall>q \<in> set n2. fst q \<in> set ps" by blast
  have "queries c' = queries c @ (n1 @ n2)" using n1(1) n2(1) by simp
  moreover have "\<forall>q \<in> set (n1 @ n2). fst q \<in> set (p # ps)" using n1(2) n2(2) by auto
  ultimately show ?case by blast
qed

lemma first_failure_fetches:
  assumes "i < length pools" and "stableInTurn E timeout (take i pools) c0 = Some ci"
      and "WaitForPoolStable E (pools ! i) timeout ci = (Some err, ci')"
  shows "\<exists>new. queries ci' = queries c0 @ new \<and> (\<forall>q \<in> set new. fst q \<in> set (take (Suc i) pools))"
proof -
  from stableInTurn_fetches [OF assms(2)] obtain n1 where
    n1: "queries ci = queries c0 @ n1" "\<forall>q \<in> set n1. fst q \<in> set (take i pools)" by blast
  from WaitForPoolStable_fetches [OF assms(3)] obtain n2 where
    n2: "queries ci' = queries ci @ n2" "\<forall>q \<in> set n2. fst q = pools ! i" by blast
  have tk: "set (take (Suc i) pools) = insert (pools ! i) (set (take i pools))"
    using assms(1) by (simp add: take_Suc_conv_app_nth)
  have "queries ci' = queries c0 @ (n1 @ n2)" using n1(1) n2(1) by simp
  moreover have "\<forall>q \<in> set (n1 @ n2). fst q \<in> set (take (Suc i) pools)"
    using n1(2) n2(2) tk by auto
  ultimately show ?thesis by blast
qed

lemma waitEachPool_all_stable:
  "stableInTurn E timeout ps c = Some cn \<Longrightarrow> waitEachPool E timeout ps c = (None, cn)"
proof (induction ps arbitrary: c)
  case Nil
  then show ?case by simp
next
  case (Cons p ps)
  then show ?case by (cases "WaitForPoolStable E p timeout c") (auto split: option.splits)
qed

lemma waitEachPool_first_failure:
  "stableInTurn E timeout ps c = Some ci \<Longrightarrow> WaitForPoolStable E p timeout ci = (Some err, ci')
     \<Longrightarrow> waitEachPool E timeout (ps @ p # rest) c = (Some (PoolFailed p err), ci')"
proof (induction ps arbitrary: c)
  case Nil
  then show ?case by simp
next
  case (Cons q qs)
  then show ?case by (cases "WaitForPoolStable E q timeout c") (auto split: option.splits)
qed

text \<open>
  C4: let the listing return \<open>pools\<close>. If the list is empty, \<^verbatim>\<open>WaitForAllPoolsStable\<close>
  returns nil and makes no fetch. If the waits for the first \<open>i\<close> pools, taken in
  listing order with the timeout given, each from the state the one before left, all
  succeed, and the wait for pool \<open>i\<close> with the same timeout fails, then the function
  returns that failure (wrapped with the name of the pool) in the state that wait left,
  and every fetch it made was for one of the pools up to \<open>i\<close>: nothing is done for the
  pools after it. If the waits for all the pools succeed, it returns nil in the state
  the last wait left.
\<close>

theorem WaitForAllPoolsStable_in_order:
  assumes "ListMachineConfigPools E c = (Inr pools, c0)"
  shows "(pools = [] \<longrightarrow>
            fst (WaitForAllPoolsStable E timeout c) = None
          \<and> queries (snd (WaitForAllPoolsStable E timeout c)) = queries c)
       \<and> (\<forall>i ci err ci'.
            i < length pools \<and> stableInTurn E timeout (take i pools) c0 = Some ci
            \<and> WaitForPoolStable E (pools ! i) timeout ci = (Some err, ci')
            \<longrightarrow> WaitForAllPoolsStable E timeout c = (Some (PoolFailed (pools ! i) err), ci')
              \<and> (\<exists>new. queries ci' = queries c @ new
                       \<and> (\<forall>q \<in> set new. fst q \<in> set (take (Suc i) pools))))
       \<and> (\<forall>cn. pools \<noteq> [] \<and> stableInTurn E timeout pools c0 = Some cn
            \<longrightarrow> WaitForAllPoolsStable E timeout c = (None, cn))"
proof (intro conjI allI impI)
  assume "pools = []"
  then show "fst (WaitForAllPoolsStable E timeout c) = None"
    using assms by (simp add: WaitForAllPoolsStable_def)
next
  assume "pools = []"
  moreover have "queries c0 = queries c"
    using assms by (auto simp: ListMachineConfigPools_def split: prod.splits option.splits)
  ultimately show "queries (snd (WaitForAllPoolsStable E timeout c)) = queries c"
    using assms by (simp add: WaitForAllPoolsStable_def)
next
  fix i ci err ci'
  assume h: "i < length pools \<and> stableInTurn E timeout (take i pools) c0 = Some ci
            \<and> WaitForPoolStable E (pools ! i) timeout ci = (Some err, ci')"
  then have split: "pools = take i pools @ pools ! i # drop (Suc i) pools"
    by (simp add: id_take_nth_drop)
  from h have ne: "pools \<noteq> []" by auto
  have "waitEachPool E timeout (take i pools @ pools ! i # drop (Suc i) pools) c0
          = (Some (PoolFailed (pools ! i) err), ci')"
    using h waitEachPool_first_failure [of E timeout "take i pools" c0 ci "pools ! i" err ci'
                                           "drop (Suc i) pools"]
    by simp
  with split have "waitEachPool E timeout pools c0 = (Some (PoolFailed (pools ! i) err), ci')"
    by simp
  then show "WaitForAllPoolsStable E timeout c = (Some (PoolFailed (pools ! i) err), ci')"
    using assms ne by (simp add: WaitForAllPoolsStable_def)
  have "queries c0 = queries c"
    using assms by (auto simp: ListMachineConfigPools_def split: prod.splits option.splits)
  then show "\<exists>new. queries ci' = queries c @ new
                       \<and> (\<forall>q \<in> set new. fst q \<in> set (take (Suc i) pools))"
    using h first_failure_fetches [of i pools E timeout c0 ci err ci'] by simp
next
  fix cn
  assume h: "pools \<noteq> [] \<and> stableInTurn E timeout pools c0 = Some cn"
  then have "waitEachPool E timeout pools c0 = (None, cn)"
    by (simp add: waitEachPool_all_stable)
  then show "WaitForAllPoolsStable E timeout c = (None, cn)"
    using assms h by (simp add: WaitForAllPoolsStable_def)
qed

theorem WaitForAllPoolsStable_in_order_witness:
  "ListMachineConfigPools emptyEnv cluster0 = (Inr [], cluster0)
   \<and> fst (WaitForAllPoolsStable emptyEnv (15 * Second) cluster0) = None
   \<and> queries (snd (WaitForAllPoolsStable emptyEnv (15 * Second) cluster0)) = queries cluster0
   \<and> ListMachineConfigPools downEnv cluster0 = (Inr [''master'', ''worker''], cluster0)
   \<and> stableInTurn downEnv (15 * Second) (take 0 [''master'', ''worker'']) cluster0 = Some cluster0
   \<and> WaitForPoolStable downEnv ([''master'', ''worker''] ! 0) (15 * Second) cluster0
        = (Some (DidNotStabilize ''master'' (15 * Second)), masterTimedOut)
   \<and> WaitForAllPoolsStable downEnv (15 * Second) cluster0
        = (Some (PoolFailed ''master'' (DidNotStabilize ''master'' (15 * Second))), masterTimedOut)
   \<and> map fst (queries masterTimedOut) = [''master'', ''master'', ''master'', ''master'']
   \<and> ListMachineConfigPools lateEnv cluster0 = (Inr [''master'', ''worker''], cluster0)
   \<and> stableInTurn lateEnv (15 * Second) (take 1 [''master'', ''worker'']) cluster0
        = Some masterStableLate
   \<and> WaitForPoolStable lateEnv ([''master'', ''worker''] ! 1) (15 * Second) masterStableLate
        = (Some (DidNotStabilize ''worker'' (15 * Second)), workerTimedOut)
   \<and> WaitForAllPoolsStable lateEnv (15 * Second) cluster0
        = (Some (PoolFailed ''worker'' (DidNotStabilize ''worker'' (15 * Second))), workerTimedOut)
   \<and> clock workerTimedOut = clock masterStableLate + 20 * Second
   \<and> ListMachineConfigPools stableEnv cluster0 = (Inr [''master'', ''worker''], cluster0)
   \<and> stableInTurn stableEnv (15 * Second) [''master'', ''worker''] cluster0 = Some bothStable
   \<and> WaitForAllPoolsStable stableEnv (15 * Second) cluster0 = (None, bothStable)"
proof -
  have l1: "ListMachineConfigPools emptyEnv cluster0 = (Inr [], cluster0)"
    by (simp add: ListMachineConfigPools_def emptyEnv_def cluster0_def)
  have l2: "ListMachineConfigPools downEnv cluster0 = (Inr [''master'', ''worker''], cluster0)"
    by (simp add: ListMachineConfigPools_def downEnv_def cluster0_def)
  have l3: "ListMachineConfigPools stableEnv cluster0 = (Inr [''master'', ''worker''], cluster0)"
    by (simp add: ListMachineConfigPools_def stableEnv_def cluster0_def)
  have w2: "WaitForPoolStable downEnv ([''master'', ''worker''] ! 0) (15 * Second) cluster0
        = (Some (DidNotStabilize ''master'' (15 * Second)), masterTimedOut)"
    by code_simp
  have s2: "stableInTurn downEnv (15 * Second) (take 0 [''master'', ''worker'']) cluster0 = Some cluster0"
    by simp
  have s3: "stableInTurn stableEnv (15 * Second) [''master'', ''worker''] cluster0 = Some bothStable"
    by code_simp
  note t1 = WaitForAllPoolsStable_in_order [OF l1, of "15 * Second"]
  note t2 = WaitForAllPoolsStable_in_order [OF l2, of "15 * Second"]
  note t3 = WaitForAllPoolsStable_in_order [OF l3, of "15 * Second"]
  have r1: "fst (WaitForAllPoolsStable emptyEnv (15 * Second) cluster0) = None
     \<and> queries (snd (WaitForAllPoolsStable emptyEnv (15 * Second) cluster0)) = queries cluster0"
    using t1 by simp
  have i0: "(0::nat) < length [''master'', ''worker'']" by simp
  have r2: "WaitForAllPoolsStable downEnv (15 * Second) cluster0
        = (Some (PoolFailed ''master'' (DidNotStabilize ''master'' (15 * Second))), masterTimedOut)"
    using t2 i0 s2 w2 by (metis nth_Cons_0)
  have q2: "map fst (queries masterTimedOut) = [''master'', ''master'', ''master'', ''master'']"
    by (simp add: masterTimedOut_def)
  have r3: "WaitForAllPoolsStable stableEnv (15 * Second) cluster0 = (None, bothStable)"
    using t3 s3 by simp
  have l4: "ListMachineConfigPools lateEnv cluster0 = (Inr [''master'', ''worker''], cluster0)"
    by (simp add: ListMachineConfigPools_def lateEnv_def cluster0_def)
  have s4: "stableInTurn lateEnv (15 * Second) (take 1 [''master'', ''worker'']) cluster0
        = Some masterStableLate"
    by code_simp
  have w4: "WaitForPoolStable lateEnv ([''master'', ''worker''] ! 1) (15 * Second) masterStableLate
        = (Some (DidNotStabilize ''worker'' (15 * Second)), workerTimedOut)"
    by code_simp
  note t4 = WaitForAllPoolsStable_in_order [OF l4, of "15 * Second"]
  have i1: "(1::nat) < length [''master'', ''worker'']" by simp
  have r4: "WaitForAllPoolsStable lateEnv (15 * Second) cluster0
        = (Some (PoolFailed ''worker'' (DidNotStabilize ''worker'' (15 * Second))), workerTimedOut)"
  proof -
    have "WaitForAllPoolsStable lateEnv (15 * Second) cluster0
        = (Some (PoolFailed ([''master'', ''worker''] ! 1) (DidNotStabilize ''worker'' (15 * Second))),
           workerTimedOut)"
      using t4 i1 s4 w4 by blast
    then show ?thesis by simp
  qed
  have c4: "clock workerTimedOut = clock masterStableLate + 20 * Second"
    by (simp add: workerTimedOut_def masterStableLate_def)
  show ?thesis using l1 l2 l3 l4 w2 s2 s3 s4 w4 r1 r2 q2 r3 r4 c4 by simp
qed

end
